theory Spec2Isabelle
  imports Complex_Main
begin

section \<open>JavaScript values\<close>

text \<open>
  The RSVP client (\<^verbatim>\<open>src/App.jsx\<close>) is JavaScript: its rows, entries and JSON
  responses are dynamically typed. The values it handles are embedded as a datatype.

  A finite number is held as its exact value, a rational, beside the three special
  values of IEEE 754; every binary64 value is such a rational, and the conversion from
  a string rounds to one (\<open>round_binary64\<close> below). The two zeros are one: no function
  below tells them apart.

  A string is a list of 8-bit characters; each \<open>char\<close> stands for one code unit below
  256. An object is the list of its own enumerable properties in enumeration order
  (\<^verbatim>\<open>Object.keys\<close> order), looked up with \<open>map_of\<close>.
\<close>

datatype jsnum = Fin rat | NaN | PosInf | NegInf

datatype jsval =
    JUndefined
  | JNull
  | JBool bool
  | JNum jsnum
  | JStr string
  | JArr "jsval list"
  | JObj "(string \<times> jsval) list"

datatype js_error =
    TypeError
  | SyntaxError
  | Error string

text \<open>\<^verbatim>\<open>ToBoolean\<close>: what \<^verbatim>\<open>||\<close>, \<^verbatim>\<open>&&\<close>, \<^verbatim>\<open>!\<close>, \<^verbatim>\<open>?:\<close> and \<^verbatim>\<open>Boolean(v)\<close> test.\<close>

fun ToBoolean :: "jsval \<Rightarrow> bool" where
  "ToBoolean JUndefined = False"
| "ToBoolean JNull = False"
| "ToBoolean (JBool b) = b"
| "ToBoolean (JNum (Fin q)) = (q \<noteq> 0)"
| "ToBoolean (JNum NaN) = False"
| "ToBoolean (JNum PosInf) = True"
| "ToBoolean (JNum NegInf) = True"
| "ToBoolean (JStr s) = (s \<noteq> [])"
| "ToBoolean (JArr xs) = True"
| "ToBoolean (JObj kvs) = True"

text \<open>\<^verbatim>\<open>a || b\<close> on operands whose evaluation has no effect.\<close>

definition js_or :: "jsval \<Rightarrow> jsval \<Rightarrow> jsval" where
  "js_or a b = (if ToBoolean a then a else b)"

text \<open>
  Property read \<^verbatim>\<open>v.k\<close>. On \<^verbatim>\<open>null\<close> and \<^verbatim>\<open>undefined\<close> it throws a TypeError; on an
  object it is the own property or \<^verbatim>\<open>undefined\<close>; a primitive or an array has none of
  the properties the program reads (\<^verbatim>\<open>name\<close>, \<^verbatim>\<open>Name\<close>, \<^verbatim>\<open>full_name\<close>, \<^verbatim>\<open>email\<close>,
  \<^verbatim>\<open>Email\<close>, \<^verbatim>\<open>attending\<close>, \<^verbatim>\<open>Attending\<close>, \<^verbatim>\<open>guests\<close>, \<^verbatim>\<open>Guests\<close>, \<^verbatim>\<open>message\<close>,
  \<^verbatim>\<open>Message\<close>, \<^verbatim>\<open>timestamp\<close>, \<^verbatim>\<open>Timestamp\<close>, \<^verbatim>\<open>time\<close>, \<^verbatim>\<open>Time\<close>, \<^verbatim>\<open>rows\<close>).
  Properties inherited from the built-in prototypes (\<^verbatim>\<open>length\<close>, indices,
  \<^verbatim>\<open>constructor\<close>, ...) are outside the model: the program reads none of them from
  these values.
\<close>

fun rd :: "jsval \<Rightarrow> string \<Rightarrow> jsval" where
  "rd (JObj kvs) k = (case map_of kvs k of None \<Rightarrow> JUndefined | Some v \<Rightarrow> v)"
| "rd v k = JUndefined"

definition is_nullish :: "jsval \<Rightarrow> bool" where
  "is_nullish v = (v = JUndefined \<or> v = JNull)"

definition get_prop :: "jsval \<Rightarrow> string \<Rightarrow> js_error + jsval" where
  "get_prop v k = (if is_nullish v then Inl TypeError else Inr (rd v k))"

section \<open>The validation predicate\<close>

text \<open>
  \<^verbatim>\<open>export function validateRSVP(entry) {
    return Boolean(entry && entry.name && entry.email);
  }\<close>
  \<^verbatim>\<open>a && b\<close> is \<^verbatim>\<open>a\<close> when \<^verbatim>\<open>a\<close> is falsy, and only then is \<^verbatim>\<open>b\<close> not evaluated.
\<close>

definition validateRSVP :: "jsval \<Rightarrow> js_error + bool" where
  "validateRSVP entry =
     (if \<not> ToBoolean entry then Inr (ToBoolean entry)
      else (case get_prop entry ''name'' of
              Inl e \<Rightarrow> Inl e
            | Inr n \<Rightarrow>
                (if \<not> ToBoolean n then Inr (ToBoolean n)
                 else (case get_prop entry ''email'' of
                         Inl e \<Rightarrow> Inl e
                       | Inr m \<Rightarrow> Inr (ToBoolean m)))))"

section \<open>Strings and numbers\<close>

abbreviation DQUOTE :: char where "DQUOTE \<equiv> CHR 0x22"
abbreviation COMMA :: char where "COMMA \<equiv> CHR 0x2C"
abbreviation LF :: char where "LF \<equiv> CHR 0x0A"
abbreviation CR :: char where "CR \<equiv> CHR 0x0D"

text \<open>\<^verbatim>\<open>Array.prototype.join\<close> on an array of strings.\<close>

fun join :: "string \<Rightarrow> string list \<Rightarrow> string" where
  "join sep [] = []"
| "join sep [x] = x"
| "join sep (x # y # ys) = x @ sep @ join sep (y # ys)"

text \<open>Decimal digits of a natural number, as \<^verbatim>\<open>String(n)\<close> prints them.\<close>

fun dec_digits :: "nat \<Rightarrow> string" where
  "dec_digits n =
     (if n < 10 then [''0123456789'' ! n]
      else dec_digits (n div 10) @ [''0123456789'' ! (n mod 10)])"

text \<open>
  \<^verbatim>\<open>Number::toString\<close>. A safe integer (at most \<open>2^53\<close> in absolute value) prints as
  its decimal digits. The digits of any other finite number come from the shortest
  round-trip algorithm on binary64, which the exact model of numbers cannot compute:
  they are the parameter \<open>dtoa\<close> of every function that stringifies a value.
\<close>

definition NumberToString :: "(rat \<Rightarrow> string) \<Rightarrow> jsnum \<Rightarrow> string" where
  "NumberToString dtoa n =
     (case n of
        NaN \<Rightarrow> ''NaN''
      | PosInf \<Rightarrow> ''Infinity''
      | NegInf \<Rightarrow> ''-Infinity''
      | Fin q \<Rightarrow>
          (if q = of_int \<lfloor>q\<rfloor> \<and> \<bar>q\<bar> \<le> 2 ^ 53
           then (if q < 0 then ''-'' else []) @ dec_digits (nat \<bar>\<lfloor>q\<rfloor>\<bar>)
           else dtoa q))"

text \<open>
  \<^verbatim>\<open>String(v)\<close> and the implicit \<^verbatim>\<open>ToString\<close>. An array prints its elements joined
  by commas, \<^verbatim>\<open>null\<close> and \<^verbatim>\<open>undefined\<close> elements as nothing; a plain object prints
  as \<^verbatim>\<open>[object Object]\<close> (an object with an own property \<^verbatim>\<open>toString\<close> is left out:
  there the conversion throws).
\<close>

fun ToString :: "(rat \<Rightarrow> string) \<Rightarrow> jsval \<Rightarrow> string" where
  "ToString dtoa JUndefined = ''undefined''"
| "ToString dtoa JNull = ''null''"
| "ToString dtoa (JBool b) = (if b then ''true'' else ''false'')"
| "ToString dtoa (JNum n) = NumberToString dtoa n"
| "ToString dtoa (JStr s) = s"
| "ToString dtoa (JArr xs) =
     join '','' (map (\<lambda>x. if x = JUndefined \<or> x = JNull then [] else ToString dtoa x) xs)"
| "ToString dtoa (JObj kvs) = ''[object Object]''"

text \<open>
  \<^verbatim>\<open>StringToNumber\<close>: white space is trimmed, the empty string is 0, and the rest must
  be one numeric literal, else the result is \<^verbatim>\<open>NaN\<close>. A literal is a decimal literal
  (optional sign; digits with an optional fraction and exponent, or \<^verbatim>\<open>Infinity\<close>) or
  an unsigned hexadecimal, octal or binary integer literal.
\<close>

definition is_ws :: "char \<Rightarrow> bool" where
  "is_ws c = (c \<in> set [CHR 0x09, CHR 0x0A, CHR 0x0B, CHR 0x0C, CHR 0x0D, CHR 0x20, CHR 0xA0])"

definition trim :: "string \<Rightarrow> string" where
  "trim s = rev (dropWhile is_ws (rev (dropWhile is_ws s)))"

definition digit_val :: "char \<Rightarrow> nat option" where
  "digit_val c =
     (let n = (of_char c :: nat) in
      if 48 \<le> n \<and> n \<le> 57 then Some (n - 48)
      else if 97 \<le> n \<and> n \<le> 102 then Some (n - 87)
      else if 65 \<le> n \<and> n \<le> 70 then Some (n - 55)
      else None)"

definition is_digit :: "char \<Rightarrow> bool" where
  "is_digit c = (48 \<le> (of_char c :: nat) \<and> (of_char c :: nat) \<le> 57)"

fun radix_num :: "nat \<Rightarrow> nat \<Rightarrow> string \<Rightarrow> nat option" where
  "radix_num b acc [] = Some acc"
| "radix_num b acc (c # cs) =
     (case digit_val c of
        None \<Rightarrow> None
      | Some d \<Rightarrow> if d < b then radix_num b (acc * b + d) cs else None)"

definition radix_literal :: "nat \<Rightarrow> string \<Rightarrow> nat option" where
  "radix_literal b s = (if s = [] then None else radix_num b 0 s)"

definition exponent_part :: "string \<Rightarrow> int option" where
  "exponent_part s =
     (case s of
        [] \<Rightarrow> Some 0
      | c # r \<Rightarrow>
          (if c = CHR ''e'' \<or> c = CHR ''E'' then
             (case r of
                [] \<Rightarrow> None
              | d # ds \<Rightarrow>
                  (if d = CHR ''+'' then map_option int (radix_literal 10 ds)
                   else if d = CHR ''-'' then map_option (\<lambda>n. - int n) (radix_literal 10 ds)
                   else map_option int (radix_literal 10 r)))
           else None))"

text \<open>
  A finite result is the Number value of the literal's mathematical value: the nearest
  binary64 value, ties to the even significand, \<^verbatim>\<open>Infinity\<close> from \<open>2^1024\<close> on (rounded),
  and 0 below half the least subnormal \<open>2^-1074\<close>. This is the rounding the engines
  perform; the language leaves the choice between the two neighbours to them for a
  literal of more than 20 significant digits. \<open>ilog2 a\<close> is the
  exponent \<open>e\<close> with \<open>2^e \<le> a < 2^(e+1)\<close>; the significand has 53 bits, so the unit
  in the last place is \<open>2^(e-52)\<close>, and never less than \<open>2^-1074\<close>.
\<close>

fun bit_length :: "nat \<Rightarrow> nat" where
  "bit_length n = (if n = 0 then 0 else Suc (bit_length (n div 2)))"

declare bit_length.simps [simp del]

definition ilog2 :: "rat \<Rightarrow> int" where
  "ilog2 a =
     (if 1 \<le> a then int (bit_length (nat \<lfloor>a\<rfloor>)) - 1
      else - int (bit_length (nat (\<lceil>1 / a\<rceil> - 1))))"

definition pow2 :: "int \<Rightarrow> rat" where
  "pow2 e = (if 0 \<le> e then 2 ^ nat e else 1 / 2 ^ nat (- e))"

definition round_half_even :: "rat \<Rightarrow> int" where
  "round_half_even x =
     (let f = \<lfloor>x\<rfloor>; r = x - of_int f
      in if r < 1 / 2 then f
         else if 1 / 2 < r then f + 1
         else if even f then f else f + 1)"

definition round_binary64 :: "rat \<Rightarrow> jsnum" where
  "round_binary64 q =
     (if q = 0 then Fin 0
      else
        (let a = \<bar>q\<bar>;
             p = max (ilog2 a - 52) (- 1074);
             v = of_int (round_half_even (a / pow2 p)) * pow2 p
         in if 2 ^ 1024 \<le> v then (if q < 0 then NegInf else PosInf)
            else Fin (if q < 0 then - v else v)))"

definition scale10 :: "nat \<Rightarrow> int \<Rightarrow> rat" where
  "scale10 m e = (if 0 \<le> e then of_nat m * 10 ^ nat e else of_nat m / 10 ^ nat (- e))"

definition unsigned_decimal :: "string \<Rightarrow> jsnum" where
  "unsigned_decimal s =
     (if s = ''Infinity'' then PosInf
      else
        (let ip = takeWhile is_digit s;
             r1 = dropWhile is_digit s;
             dot = (r1 \<noteq> [] \<and> hd r1 = CHR ''.'');
             fp = (if dot then takeWhile is_digit (tl r1) else []);
             r2 = (if dot then dropWhile is_digit (tl r1) else r1)
         in if ip = [] \<and> fp = [] then NaN
            else (case (radix_literal 10 (ip @ fp), exponent_part r2) of
                    (Some m, Some e) \<Rightarrow> round_binary64 (scale10 m (e - int (length fp)))
                  | _ \<Rightarrow> NaN)))"

definition negate :: "jsnum \<Rightarrow> jsnum" where
  "negate n = (case n of Fin q \<Rightarrow> Fin (- q) | NaN \<Rightarrow> NaN | PosInf \<Rightarrow> NegInf | NegInf \<Rightarrow> PosInf)"

definition StringToNumber :: "string \<Rightarrow> jsnum" where
  "StringToNumber s =
     (let t = trim s in
      if t = [] then Fin 0
      else if take 2 t = ''0x'' \<or> take 2 t = ''0X'' then
        (case radix_literal 16 (drop 2 t) of
           None \<Rightarrow> NaN
         | Some n \<Rightarrow> round_binary64 (of_nat n))
      else if take 2 t = ''0o'' \<or> take 2 t = ''0O'' then
        (case radix_literal 8 (drop 2 t) of
           None \<Rightarrow> NaN
         | Some n \<Rightarrow> round_binary64 (of_nat n))
      else if take 2 t = ''0b'' \<or> take 2 t = ''0B'' then
        (case radix_literal 2 (drop 2 t) of
           None \<Rightarrow> NaN
         | Some n \<Rightarrow> round_binary64 (of_nat n))
      else if hd t = CHR ''+'' then unsigned_decimal (tl t)
      else if hd t = CHR ''-'' then negate (unsigned_decimal (tl t))
      else unsigned_decimal t)"

text \<open>
  \<^verbatim>\<open>Number(v)\<close>. An array or an object is first made primitive, which for the values
  of a JSON document is its string.
\<close>

definition ToNumber :: "(rat \<Rightarrow> string) \<Rightarrow> jsval \<Rightarrow> jsnum" where
  "ToNumber dtoa v =
     (case v of
        JUndefined \<Rightarrow> NaN
      | JNull \<Rightarrow> Fin 0
      | JBool b \<Rightarrow> Fin (if b then 1 else 0)
      | JNum n \<Rightarrow> n
      | JStr s \<Rightarrow> StringToNumber s
      | JArr xs \<Rightarrow> StringToNumber (ToString dtoa v)
      | JObj kvs \<Rightarrow> StringToNumber (ToString dtoa v))"

section \<open>The store endpoint and its configuration\<close>

text \<open>
  \<^verbatim>\<open>const SHEETS_WEB_APP_URL = import.meta.env?.VITE_SHEETS_WEB_APP_URL;\<close>
  is a build-time value: a string, or \<^verbatim>\<open>undefined\<close> when the variable is not set. It is
  the first argument of every function that reads it.
  \<^verbatim>\<open>function isSheetsConfigured() {
    return (
      typeof SHEETS_WEB_APP_URL === "string" &&
      SHEETS_WEB_APP_URL.startsWith("http")
    );
  }\<close>
\<close>

definition isSheetsConfigured :: "jsval \<Rightarrow> bool" where
  "isSheetsConfigured SHEETS_WEB_APP_URL =
     (case SHEETS_WEB_APP_URL of JStr s \<Rightarrow> take 4 s = ''http'' | _ \<Rightarrow> False)"

text \<open>
  The network is explicit. A call of \<^verbatim>\<open>fetch\<close> is a request; the remote answers it
  with a status and a body (\<open>None\<close> when the body is not JSON), or cannot be reached,
  and then \<^verbatim>\<open>fetch\<close> rejects with a TypeError. Every function that may call
  \<^verbatim>\<open>fetch\<close> returns, beside its result, the list of the requests it made. The body of
  a POST request is the value handed to \<^verbatim>\<open>JSON.stringify\<close>.
\<close>

datatype http_method = GET | POST

record request =
  req_method :: http_method
  req_url :: string
  req_body :: "jsval option"

datatype reply = Unreachable | Reply nat "jsval option"

text \<open>\<^verbatim>\<open>res.ok\<close>\<close>

definition status_ok :: "nat \<Rightarrow> bool" where
  "status_ok status = (200 \<le> status \<and> status \<le> 299)"

text \<open>
  \<^verbatim>\<open>async function fetchRSVPsFromSheets() {
    if (!isSheetsConfigured()) throw new Error("SHEETS_URL_NOT_CONFIGURED");
    const url = SHEETS_WEB_APP_URL.includes("?")
      ? `${SHEETS_WEB_APP_URL}&action=list`
      : `${SHEETS_WEB_APP_URL}?action=list`;
    const res = await fetch(url, { method: "GET" });
    if (!res.ok) throw new Error(`LIST_FAILED_${res.status}`);
    const data = await res.json();
    return Array.isArray(data) ? data : data?.rows || [];
  }\<close>
\<close>

definition rows_of :: "jsval \<Rightarrow> jsval" where
  "rows_of data =
     (case data of
        JArr xs \<Rightarrow> data
      | _ \<Rightarrow> js_or (if is_nullish data then JUndefined else rd data ''rows'') (JArr []))"

definition fetchRSVPsFromSheets ::
    "jsval \<Rightarrow> (request \<Rightarrow> reply) \<Rightarrow> (js_error + jsval) \<times> request list" where
  "fetchRSVPsFromSheets SHEETS_WEB_APP_URL remote =
     (if \<not> isSheetsConfigured SHEETS_WEB_APP_URL
      then (Inl (Error ''SHEETS_URL_NOT_CONFIGURED''), [])
      else
        (let base = (case SHEETS_WEB_APP_URL of JStr s \<Rightarrow> s | _ \<Rightarrow> []);
             url = (if CHR ''?'' \<in> set base then base @ ''&action=list''
                    else base @ ''?action=list'');
             rq = \<lparr>req_method = GET, req_url = url, req_body = None\<rparr>
         in (case remote rq of
               Unreachable \<Rightarrow> (Inl TypeError, [rq])
             | Reply status body \<Rightarrow>
                 (if \<not> status_ok status
                  then (Inl (Error (''LIST_FAILED_'' @ dec_digits status)), [rq])
                  else (case body of
                          None \<Rightarrow> (Inl SyntaxError, [rq])
                        | Some data \<Rightarrow> (Inr (rows_of data), [rq]))))))"

text \<open>
  \<^verbatim>\<open>URLSearchParams.prototype.toString\<close>: the \<^verbatim>\<open>application/x-www-form-urlencoded\<close>
  serializer. Letters, digits and \<^verbatim>\<open>* - . _\<close> stay, a space becomes \<^verbatim>\<open>+\<close>, every
  other byte of the UTF-8 encoding becomes \<^verbatim>\<open>%XX\<close>.
\<close>

definition utf8_bytes :: "char \<Rightarrow> nat list" where
  "utf8_bytes c =
     (let n = (of_char c :: nat) in
      if n < 128 then [n] else [192 + n div 64, 128 + n mod 64])"

definition percent_byte :: "nat \<Rightarrow> string" where
  "percent_byte b =
     [CHR ''%'', ''0123456789ABCDEF'' ! (b div 16), ''0123456789ABCDEF'' ! (b mod 16)]"

definition urlencode_char :: "char \<Rightarrow> string" where
  "urlencode_char c =
     (let n = (of_char c :: nat) in
      if n = 32 then ''+''
      else if (48 \<le> n \<and> n \<le> 57) \<or> (65 \<le> n \<and> n \<le> 90) \<or> (97 \<le> n \<and> n \<le> 122)
              \<or> n = 42 \<or> n = 45 \<or> n = 46 \<or> n = 95
      then [c]
      else concat (map percent_byte (utf8_bytes c)))"

definition urlencode :: "string \<Rightarrow> string" where
  "urlencode s = concat (map urlencode_char s)"

definition serialize_params :: "(string \<times> string) list \<Rightarrow> string" where
  "serialize_params ps = join ''&'' (map (\<lambda>(k, v). urlencode k @ ''='' @ urlencode v) ps)"

text \<open>
  The current revision of \<^verbatim>\<open>addRSVPToSheets\<close> (\<^verbatim>\<open>src/App.jsx\<close>, lines 78 to 103)
  sends a GET request. \<open>now\<close> is the value of \<^verbatim>\<open>new Date().toISOString()\<close> at the call.
  \<^verbatim>\<open>async function addRSVPToSheets(entry) {
    if (!SHEETS_WEB_APP_URL) throw new Error("SHEETS_URL_NOT_CONFIGURED");
    const params = new URLSearchParams({
      action: "add",
      name: entry.name || "",
      email: entry.email || "",
      attending: entry.attending || "",
      guests: entry.guests ? String(entry.guests) : "0",
      message: entry.message || "",
      timestamp: new Date().toISOString(),
    });
    const url = `${SHEETS_WEB_APP_URL}?${params.toString()}`;
    try {
      const res = await fetch(url);
      if (!res.ok) throw new Error(`ADD_FAILED_${res.status}`);
      const data = await res.json();
      return data;
    } catch (err) {
      console.error("RSVP add error:", err);
      throw err;
    }
  }\<close>
\<close>

definition add_params :: "(rat \<Rightarrow> string) \<Rightarrow> string \<Rightarrow> jsval \<Rightarrow> (string \<times> string) list" where
  "add_params dtoa now entry =
     [(''action'', ''add''),
      (''name'', ToString dtoa (js_or (rd entry ''name'') (JStr []))),
      (''email'', ToString dtoa (js_or (rd entry ''email'') (JStr []))),
      (''attending'', ToString dtoa (js_or (rd entry ''attending'') (JStr []))),
      (''guests'', if ToBoolean (rd entry ''guests'')
                   then ToString dtoa (rd entry ''guests'') else ''0''),
      (''message'', ToString dtoa (js_or (rd entry ''message'') (JStr []))),
      (''timestamp'', now)]"

definition addRSVPToSheets ::
    "(rat \<Rightarrow> string) \<Rightarrow> jsval \<Rightarrow> string \<Rightarrow> (request \<Rightarrow> reply) \<Rightarrow> jsval
       \<Rightarrow> (js_error + jsval) \<times> request list" where
  "addRSVPToSheets dtoa SHEETS_WEB_APP_URL now remote entry =
     (if \<not> ToBoolean SHEETS_WEB_APP_URL
      then (Inl (Error ''SHEETS_URL_NOT_CONFIGURED''), [])
      else if is_nullish entry then (Inl TypeError, [])
      else
        (let url = ToString dtoa SHEETS_WEB_APP_URL @ ''?''
                     @ serialize_params (add_params dtoa now entry);
             rq = \<lparr>req_method = GET, req_url = url, req_body = None\<rparr>
         in (case remote rq of
               Unreachable \<Rightarrow> (Inl TypeError, [rq])
             | Reply status body \<Rightarrow>
                 (if \<not> status_ok status
                  then (Inl (Error (''ADD_FAILED_'' @ dec_digits status)), [rq])
                  else (case body of
                          None \<Rightarrow> (Inl SyntaxError, [rq])
                        | Some data \<Rightarrow> (Inr data, [rq]))))))"

text \<open>
  The earlier revision kept in the same file (lines 1309 to 1318) sends a POST request.
  \<^verbatim>\<open>async function addRSVPToSheets(entry) {
    if (!isSheetsConfigured()) throw new Error("SHEETS_URL_NOT_CONFIGURED");
    const res = await fetch(SHEETS_WEB_APP_URL, {
      method: "POST",
      headers: { "Content-Type": "application/json" },
      body: JSON.stringify({ action: "add", entry }),
    });
    if (!res.ok) throw new Error(`ADD_FAILED_${res.status}`);
    return res.json();
  }\<close>
\<close>

definition addRSVPToSheets_post ::
    "jsval \<Rightarrow> (request \<Rightarrow> reply) \<Rightarrow> jsval \<Rightarrow> (js_error + jsval) \<times> request list" where
  "addRSVPToSheets_post SHEETS_WEB_APP_URL remote entry =
     (if \<not> isSheetsConfigured SHEETS_WEB_APP_URL
      then (Inl (Error ''SHEETS_URL_NOT_CONFIGURED''), [])
      else
        (let url = (case SHEETS_WEB_APP_URL of JStr s \<Rightarrow> s | _ \<Rightarrow> []);
             rq = \<lparr>req_method = POST, req_url = url,
                   req_body = Some (JObj [(''action'', JStr ''add''), (''entry'', entry)])\<rparr>
         in (case remote rq of
               Unreachable \<Rightarrow> (Inl TypeError, [rq])
             | Reply status body \<Rightarrow>
                 (if \<not> status_ok status
                  then (Inl (Error (''ADD_FAILED_'' @ dec_digits status)), [rq])
                  else (case body of
                          None \<Rightarrow> (Inl SyntaxError, [rq])
                        | Some data \<Rightarrow> (Inr data, [rq]))))))"

section \<open>Listing and normalizing the entries\<close>

text \<open>
  The callback of \<^verbatim>\<open>rows.map\<close> in \<^verbatim>\<open>refreshRSVPs\<close>:
  \<^verbatim>\<open>(r) => ({
    name: r.name || r.Name || r.full_name || "",
    email: r.email || r.Email || "",
    attending: r.attending || r.Attending || "",
    guests: Number(r.guests || r.Guests || 0),
    message: r.message || r.Message || "",
    timestamp: r.timestamp || r.Timestamp || r.time || r.Time || "",
  })\<close>
  The first property read throws when \<open>r\<close> is \<^verbatim>\<open>null\<close> or \<^verbatim>\<open>undefined\<close>.
\<close>

definition normalizeRow :: "(rat \<Rightarrow> string) \<Rightarrow> jsval \<Rightarrow> js_error + jsval" where
  "normalizeRow dtoa r =
     (if is_nullish r then Inl TypeError
      else Inr (JObj
        [(''name'', js_or (js_or (js_or (rd r ''name'') (rd r ''Name'')) (rd r ''full_name''))
                      (JStr [])),
         (''email'', js_or (js_or (rd r ''email'') (rd r ''Email'')) (JStr [])),
         (''attending'', js_or (js_or (rd r ''attending'') (rd r ''Attending'')) (JStr [])),
         (''guests'', JNum (ToNumber dtoa
                       (js_or (js_or (rd r ''guests'') (rd r ''Guests'')) (JNum (Fin 0))))),
         (''message'', js_or (js_or (rd r ''message'') (rd r ''Message'')) (JStr [])),
         (''timestamp'', js_or (js_or (js_or (js_or (rd r ''timestamp'') (rd r ''Timestamp''))
                                  (rd r ''time'')) (rd r ''Time'')) (JStr []))]))"

text \<open>\<^verbatim>\<open>Array.prototype.map\<close> with a callback that may throw: the first throw ends it.\<close>

fun map_rows :: "('a \<Rightarrow> js_error + 'b) \<Rightarrow> 'a list \<Rightarrow> js_error + 'b list" where
  "map_rows f [] = Inr []"
| "map_rows f (x # xs) =
     (case f x of
        Inl e \<Rightarrow> Inl e
      | Inr y \<Rightarrow> (case map_rows f xs of Inl e \<Rightarrow> Inl e | Inr ys \<Rightarrow> Inr (y # ys)))"

text \<open>The filter \<^verbatim>\<open>(x) => x.name || x.email\<close>, on the objects the map built.\<close>

definition keep_row :: "jsval \<Rightarrow> bool" where
  "keep_row x = ToBoolean (js_or (rd x ''name'') (rd x ''email''))"

text \<open>
  \<^verbatim>\<open>rows.map(...)\<close> on the value \<^verbatim>\<open>fetchRSVPsFromSheets\<close> returned: an array is
  mapped; any other value has no \<^verbatim>\<open>map\<close> method, and the call throws a TypeError.
\<close>

definition normalize_all :: "(rat \<Rightarrow> string) \<Rightarrow> jsval \<Rightarrow> js_error + jsval list" where
  "normalize_all dtoa rows =
     (case rows of JArr rs \<Rightarrow> map_rows (normalizeRow dtoa) rs | _ \<Rightarrow> Inl TypeError)"

text \<open>
  The component state that \<^verbatim>\<open>refreshRSVPs\<close> writes, and the function itself:
  \<^verbatim>\<open>const refreshRSVPs = async () => {
    if (!isAdmin) return;
    setLoading(true);
    try {
      const rows = await fetchRSVPsFromSheets();
      const norm = rows.map((r) => ({ ... }));
      setRsvps(norm.filter((x) => x.name || x.email));
    } catch (e) {
      console.warn("Fetch RSVPs failed:", e);
      setRsvps([]);
    } finally {
      setLoading(false);
    }
  };\<close>
  The model returns the state once the promise has settled.
\<close>

record app_state =
  rsvps :: "jsval list"
  loading :: bool

definition refreshRSVPs ::
    "(rat \<Rightarrow> string) \<Rightarrow> jsval \<Rightarrow> (request \<Rightarrow> reply) \<Rightarrow> bool \<Rightarrow> app_state
       \<Rightarrow> app_state \<times> request list" where
  "refreshRSVPs dtoa SHEETS_WEB_APP_URL remote isAdmin st =
     (if \<not> isAdmin then (st, [])
      else
        (case fetchRSVPsFromSheets SHEETS_WEB_APP_URL remote of
           (Inl e, sent) \<Rightarrow> (st\<lparr>rsvps := [], loading := False\<rparr>, sent)
         | (Inr rows, sent) \<Rightarrow>
             (case normalize_all dtoa rows of
                Inl e \<Rightarrow> (st\<lparr>rsvps := [], loading := False\<rparr>, sent)
              | Inr normed \<Rightarrow> (st\<lparr>rsvps := filter keep_row normed, loading := False\<rparr>, sent))))"

section \<open>CSV export\<close>

text \<open>
  \<^verbatim>\<open>export function rowsToCSV(rows) {
    const processRow = (row) =>
      Object.values(row)
        .map((v) => {
          const val = v == null ? "" : String(v);
          const needsQuotes = /[",\n]/.test(val);
          const escaped = val.replace(/"/g, '""');
          return needsQuotes ? `"${escaped}"` : escaped;
        })
        .join(",");
    const header = Object.keys(rows[0] || {}).join(",");
    return [header, ...rows.map(processRow)].join("\n");
  }\<close>
  Its callers pass the normalized entries: \<open>rows\<close> is a list of plain objects, each the
  list of its properties.
\<close>

fun needsQuotes :: "string \<Rightarrow> bool" where
  "needsQuotes [] = False"
| "needsQuotes (c # cs) = (c = DQUOTE \<or> c = COMMA \<or> c = LF \<or> needsQuotes cs)"

fun escape_quotes :: "string \<Rightarrow> string" where
  "escape_quotes [] = []"
| "escape_quotes (c # cs) = (if c = DQUOTE then [DQUOTE, DQUOTE] else [c]) @ escape_quotes cs"

definition quote_cell :: "string \<Rightarrow> string" where
  "quote_cell val =
     (let escaped = escape_quotes val
      in if needsQuotes val then [DQUOTE] @ escaped @ [DQUOTE] else escaped)"

definition cell_text :: "(rat \<Rightarrow> string) \<Rightarrow> jsval \<Rightarrow> string" where
  "cell_text dtoa v = (if v = JNull \<or> v = JUndefined then [] else ToString dtoa v)"

definition processRow :: "(rat \<Rightarrow> string) \<Rightarrow> (string \<times> jsval) list \<Rightarrow> string" where
  "processRow dtoa row = join '','' (map (\<lambda>v. quote_cell (cell_text dtoa v)) (map snd row))"

definition rowsToCSV :: "(rat \<Rightarrow> string) \<Rightarrow> (string \<times> jsval) list list \<Rightarrow> string" where
  "rowsToCSV dtoa rows =
     (let header = join '','' (map fst (case rows of [] \<Rightarrow> [] | r # rest \<Rightarrow> r))
      in join [LF] (header # map (processRow dtoa) rows))"

section \<open>Notions the properties are stated with\<close>

text \<open>
  The fallback chain of a field: the value under the first key of the chain that holds
  a truthy value in the row, else the default.
\<close>

fun first_truthy :: "jsval \<Rightarrow> string list \<Rightarrow> jsval \<Rightarrow> jsval" where
  "first_truthy r [] dflt = dflt"
| "first_truthy r (k # ks) dflt =
     (if ToBoolean (rd r k) then rd r k else first_truthy r ks dflt)"

text \<open>The base-10 value of a string of decimal digits.\<close>

definition decimal_value :: "string \<Rightarrow> nat" where
  "decimal_value s = foldl (\<lambda>acc c. 10 * acc + (of_char c - 48)) 0 s"

definition is_str :: "jsval \<Rightarrow> bool" where
  "is_str v = (case v of JStr s \<Rightarrow> True | _ \<Rightarrow> False)"

definition is_num :: "jsval \<Rightarrow> bool" where
  "is_num v = (case v of JNum n \<Rightarrow> True | _ \<Rightarrow> False)"

text \<open>
  A canonical row: its keys are the six canonical ones, the five text fields hold
  strings, and \<^verbatim>\<open>guests\<close> holds a number (\<^verbatim>\<open>NaN\<close> is not one).
\<close>

definition canonical_keys :: "string list" where
  "canonical_keys = [''name'', ''email'', ''attending'', ''guests'', ''message'', ''timestamp'']"

definition canonical_row :: "(string \<times> jsval) list \<Rightarrow> bool" where
  "canonical_row kvs =
     (set (map fst kvs) = set canonical_keys \<and>
      is_str (rd (JObj kvs) ''name'') \<and> is_str (rd (JObj kvs) ''email'') \<and>
      is_str (rd (JObj kvs) ''attending'') \<and> is_str (rd (JObj kvs) ''message'') \<and>
      is_str (rd (JObj kvs) ''timestamp'') \<and>
      is_num (rd (JObj kvs) ''guests'') \<and> rd (JObj kvs) ''guests'' \<noteq> JNum NaN)"

section \<open>Reading CSV back\<close>

text \<open>
  The notions of the specification's sentences about \<^verbatim>\<open>rowsToCSV\<close>. A text is special
  when it contains a comma, a double quote or a line feed; the field of a text is the
  text wrapped in double quotes, with its double quotes doubled, when the text is
  special, and the text itself otherwise.
\<close>

definition contains_special :: "string \<Rightarrow> bool" where
  "contains_special s = (COMMA \<in> set s \<or> DQUOTE \<in> set s \<or> LF \<in> set s)"

definition double_quotes :: "string \<Rightarrow> string" where
  "double_quotes s = concat (map (\<lambda>c. if c = DQUOTE then [DQUOTE, DQUOTE] else [c]) s)"

definition csv_field :: "string \<Rightarrow> string" where
  "csv_field s = (if contains_special s then [DQUOTE] @ double_quotes s @ [DQUOTE] else s)"

text \<open>
  A reference reader for the format of RFC 4180. Fields are separated by commas and
  records by line breaks; a line break is CR LF, and also LF or CR alone, as readers
  accept; a field that starts with a double quote runs to its closing double quote,
  commas and line breaks included, and a doubled double quote inside stands for one;
  the line break that ends the last record is optional, so that a text ending in a
  line break has no further, empty record. The reader is a state machine over the
  characters: the mode, the field read so far, and the fields of the record so far.
\<close>

datatype csv_mode = FieldStart | Plain | Quoted | QuoteSeen | AfterCR

fun csv_read :: "csv_mode \<Rightarrow> string \<Rightarrow> string list \<Rightarrow> string \<Rightarrow> string list list" where
  "csv_read m fld row [] =
     (if (m = FieldStart \<or> m = AfterCR) \<and> row = [] then [] else [row @ [fld]])"
| "csv_read m fld row (c # cs) =
     (if m = Quoted then
        (if c = DQUOTE then csv_read QuoteSeen fld row cs
         else csv_read Quoted (fld @ [c]) row cs)
      else if m = AfterCR \<and> c = LF then csv_read FieldStart [] [] cs
      else if c = COMMA then csv_read FieldStart [] (row @ [fld]) cs
      else if c = LF then (row @ [fld]) # csv_read FieldStart [] [] cs
      else if c = CR then (row @ [fld]) # csv_read AfterCR [] [] cs
      else if c = DQUOTE \<and> (m = FieldStart \<or> m = AfterCR) then csv_read Quoted [] row cs
      else if c = DQUOTE \<and> m = QuoteSeen then csv_read Quoted (fld @ [DQUOTE]) row cs
      else csv_read Plain (fld @ [c]) row cs)"

definition csv_parse :: "string \<Rightarrow> string list list" where
  "csv_parse s = csv_read FieldStart [] [] s"

text \<open>
  The conditions of the round trip. A value is safe when a carriage return in it
  comes with a comma, a double quote or a line feed, so that the cell is quoted; a key
  is safe for the header, which is not quoted, when it contains no double quote and no
  line break.
\<close>

definition cr_safe :: "string \<Rightarrow> bool" where
  "cr_safe s = (CR \<in> set s \<longrightarrow> contains_special s)"

definition header_safe :: "string \<Rightarrow> bool" where
  "header_safe k = (DQUOTE \<notin> set k \<and> LF \<notin> set k \<and> CR \<notin> set k)"

text \<open>A table of strings as the rows \<^verbatim>\<open>rowsToCSV\<close> takes.\<close>

definition string_rows :: "(string \<times> string) list list \<Rightarrow> (string \<times> jsval) list list" where
  "string_rows rows = map (map (\<lambda>(k, s). (k, JStr s))) rows"

text \<open>
  Two abbreviations for the proofs about the reader: what it does when a field ends
  before the rest of the text, and the rests a field may end before.
\<close>

definition field_end :: "string \<Rightarrow> string list \<Rightarrow> string \<Rightarrow> string list list" where
  "field_end fld row rest =
     (case rest of
        [] \<Rightarrow> [row @ [fld]]
      | c # cs \<Rightarrow>
          if c = COMMA then csv_read FieldStart [] (row @ [fld]) cs
          else (row @ [fld]) # csv_read FieldStart [] [] cs)"

definition at_delimiter :: "string \<Rightarrow> bool" where
  "at_delimiter rest = (rest = [] \<or> hd rest = COMMA \<or> hd rest = LF)"

section \<open>Properties of the validation predicate\<close>

lemma ToBoolean_not_nullish: "ToBoolean v \<Longrightarrow> \<not> is_nullish v"
  by (auto simp: is_nullish_def)

lemma validateRSVP_value:
  "validateRSVP e =
     Inr (\<not> is_nullish e \<and> ToBoolean (rd e ''name'') \<and> ToBoolean (rd e ''email''))"
proof (cases "ToBoolean e")
  case True
  then have "\<not> is_nullish e" by (rule ToBoolean_not_nullish)
  with True show ?thesis by (simp add: validateRSVP_def get_prop_def)
next
  case False
  then have "is_nullish e \<or> rd e ''name'' = JUndefined"
    by (cases e) (simp_all add: is_nullish_def)
  with False show ?thesis by (auto simp: validateRSVP_def)
qed

text \<open>
  C8. \<^verbatim>\<open>validateRSVP(e)\<close> never throws, and it is true exactly when \<open>e\<close> is neither
  \<^verbatim>\<open>null\<close> nor \<^verbatim>\<open>undefined\<close> and both \<^verbatim>\<open>e.name\<close> and \<^verbatim>\<open>e.email\<close> are truthy. For an
  entry object with string fields that is: both present and non-empty; an entry
  object without \<^verbatim>\<open>name\<close> or without \<^verbatim>\<open>email\<close> is rejected; and two entry objects
  that agree on \<^verbatim>\<open>name\<close> and \<^verbatim>\<open>email\<close> get the same verdict, whatever their other
  fields are.
\<close>

theorem validateRSVP_iff:
  "validateRSVP e =
     Inr (e \<noteq> JNull \<and> e \<noteq> JUndefined \<and>
          ToBoolean (rd e ''name'') \<and> ToBoolean (rd e ''email''))
   \<and> (map_of kvs1 ''name'' = Some (JStr n) \<and> map_of kvs1 ''email'' = Some (JStr m) \<longrightarrow>
        validateRSVP (JObj kvs1) = Inr (n \<noteq> [] \<and> m \<noteq> []))
   \<and> (map_of kvs2 ''name'' = None \<or> map_of kvs2 ''email'' = None \<longrightarrow>
        validateRSVP (JObj kvs2) = Inr False)
   \<and> (map_of kvs3 ''name'' = map_of kvs4 ''name'' \<and>
      map_of kvs3 ''email'' = map_of kvs4 ''email'' \<longrightarrow>
        validateRSVP (JObj kvs3) = validateRSVP (JObj kvs4))"
  by (auto simp: validateRSVP_value is_nullish_def)

theorem validateRSVP_iff_witness:
  "validateRSVP (JObj [(''name'', JStr ''Ana''), (''email'', JStr ''a@x.com''),
                       (''guests'', JNum (Fin 2))]) = Inr True
   \<and> validateRSVP (JObj [(''name'', JStr ''Ana''), (''email'', JStr [])]) = Inr False
   \<and> validateRSVP (JObj [(''name'', JStr ''Ana''), (''message'', JStr ''hi'')]) = Inr False
   \<and> validateRSVP (JObj [(''email'', JStr ''b@x.com''), (''name'', JStr ''Bo''),
                         (''attending'', JStr ''No'')])
      = validateRSVP (JObj [(''name'', JStr ''Bo''), (''email'', JStr ''b@x.com'')])"
  using validateRSVP_iff [of
      "JObj [(''name'', JStr ''Ana''), (''email'', JStr ''a@x.com''), (''guests'', JNum (Fin 2))]"
      "[(''name'', JStr ''Ana''), (''email'', JStr [])]" "''Ana''" "[]"
      "[(''name'', JStr ''Ana''), (''message'', JStr ''hi'')]"
      "[(''email'', JStr ''b@x.com''), (''name'', JStr ''Bo''), (''attending'', JStr ''No'')]"
      "[(''name'', JStr ''Bo''), (''email'', JStr ''b@x.com'')]"]
  by simp

section \<open>Properties of the string to number conversion\<close>

lemma is_digit_not_ws: "is_digit c \<Longrightarrow> \<not> is_ws c"
  by (auto simp: is_digit_def is_ws_def)

lemma trim_id:
  assumes "s \<noteq> []" and "\<not> is_ws (hd s)" and "\<not> is_ws (last s)"
  shows "trim s = s"
proof -
  from assms have front: "dropWhile is_ws s = s" by (cases s) auto
  from assms have "dropWhile is_ws (rev s) = rev s"
    by (cases "rev s") (auto simp: hd_rev)
  with front show ?thesis by (simp add: trim_def)
qed

lemma radix_num_digits:
  "\<forall>c\<in>set s. is_digit c \<Longrightarrow>
     radix_num 10 acc s = Some (foldl (\<lambda>acc c. 10 * acc + (of_char c - 48)) acc s)"
  by (induction s arbitrary: acc) (auto simp: digit_val_def is_digit_def Let_def mult.commute)

lemma bit_length_0 [simp]: "bit_length 0 = 0"
  by (subst bit_length.simps) simp

lemma bit_length_lower: "0 < n \<Longrightarrow> 2 ^ (bit_length n - 1) \<le> n"
proof (induction n rule: bit_length.induct)
  case (1 n)
  show ?case
  proof (cases "n div 2 = 0")
    case True
    with 1(2) have "n = 1" by linarith
    then show ?thesis by (subst bit_length.simps) simp
  next
    case False
    with 1 have ih: "2 ^ (bit_length (n div 2) - 1) \<le> n div 2" by simp
    from False have pos: "0 < bit_length (n div 2)" by (subst bit_length.simps) simp
    have "bit_length n = Suc (bit_length (n div 2))" using 1(2) by (subst bit_length.simps) simp
    then have "(2::nat) ^ (bit_length n - 1) = 2 * 2 ^ (bit_length (n div 2) - 1)"
      using pos by (cases "bit_length (n div 2)") simp_all
    with ih show ?thesis by linarith
  qed
qed

lemma round_half_even_int: "round_half_even (of_int z) = z"
  by (simp add: round_half_even_def)

lemma round_binary64_exact:
  assumes "0 < a" and "a < 2 ^ 1024"
    and "a / pow2 (max (ilog2 a - 52) (- 1074)) = of_int z"
  shows "round_binary64 a = Fin a"
proof -
  let ?p = "max (ilog2 a - 52) (- 1074)"
  have pos: "pow2 ?p \<noteq> 0" by (simp add: pow2_def)
  from assms(3) have "of_int (round_half_even (a / pow2 ?p)) * pow2 ?p = a"
    using pos by (simp add: round_half_even_int) (metis nonzero_divide_eq_eq)
  with assms(1,2) show ?thesis
    by (simp add: round_binary64_def Let_def)
qed

text \<open>Every natural number up to \<open>2^53\<close> is a binary64 value: rounding keeps it.\<close>

lemma round_binary64_nat:
  assumes "n \<le> 2 ^ 53"
  shows "round_binary64 (of_nat n) = Fin (of_nat n)"
proof (cases "n = 0")
  case True
  then show ?thesis by (simp add: round_binary64_def)
next
  case False
  then have n: "0 < n" by simp
  let ?a = "of_nat n :: rat"
  let ?L = "bit_length n"
  have a1: "1 \<le> ?a" using n by simp
  have il: "ilog2 ?a = int ?L - 1" using a1 by (simp add: ilog2_def)
  have pw: "(2::nat) ^ (?L - 1) \<le> 2 ^ 53"
    using bit_length_lower [OF n] assms by linarith
  have "1 < (2::nat)" by simp
  from power_le_imp_le_exp [OF this pw] have L: "?L - 1 \<le> 53" .
  let ?p = "max (ilog2 ?a - 52) (- 1074)"
  have "\<exists>z. ?a / pow2 ?p = of_int z"
  proof (cases "?L \<le> 53")
    case True
    then have p: "?p \<le> 0" by (simp add: il)
    then have "pow2 ?p = 1 / 2 ^ nat (- ?p)"
      by (cases "?p = 0") (simp_all add: pow2_def)
    then have "?a / pow2 ?p = of_int (int n * 2 ^ nat (- ?p))" by simp
    then show ?thesis by blast
  next
    case False
    with L have L54: "?L = 54" by linarith
    with bit_length_lower [OF n] assms have "n = 2 ^ 53" by simp
    moreover from L54 have "?p = 1" by (simp add: il)
    ultimately have "?a / pow2 ?p = of_int (2 ^ 52)" by (simp add: pow2_def)
    then show ?thesis by blast
  qed
  then obtain z where z: "?a / pow2 ?p = of_int z" by blast
  have "(of_nat n :: rat) \<le> of_nat (2 ^ 53)" using assms by (simp only: of_nat_le_iff)
  also have "\<dots> < 2 ^ 1024" by simp
  finally have lt: "?a < 2 ^ 1024" .
  from n have "0 < ?a" by simp
  then show ?thesis using lt z by (rule round_binary64_exact)
qed

lemma StringToNumber_digits_rounded:
  assumes "s \<noteq> []" and "\<forall>c\<in>set s. is_digit c"
  shows "StringToNumber s = round_binary64 (of_nat (decimal_value s))"
proof -
  from assms have first: "is_digit (hd s)" and "is_digit (last s)" by auto
  then have t: "trim s = s" using assms(1) by (simp add: trim_id is_digit_not_ws)
  have tw: "takeWhile is_digit s = s" "dropWhile is_digit s = []" using assms(2) by auto
  have nx: "take 2 s \<noteq> [a, b]" if "\<not> is_digit b" for a b
  proof
    assume "take 2 s = [a, b]"
    then have "b \<in> set (take 2 s)" by simp
    then have "b \<in> set s" by (rule in_set_takeD)
    with assms(2) that show False by auto
  qed
  have nd: "\<not> is_digit CHR ''x''" "\<not> is_digit CHR ''X''" "\<not> is_digit CHR ''o''"
    "\<not> is_digit CHR ''O''" "\<not> is_digit CHR ''b''" "\<not> is_digit CHR ''B''"
    "\<not> is_digit CHR ''+''" "\<not> is_digit CHR ''-''" "\<not> is_digit CHR ''I''"
    by (simp_all add: is_digit_def)
  have sg: "hd s \<noteq> CHR ''+''" "hd s \<noteq> CHR ''-''" using first nd by auto
  have inf: "s \<noteq> ''Infinity''" using first nd by auto
  have ud: "unsigned_decimal s = round_binary64 (of_nat (decimal_value s))"
    using assms inf
    by (simp add: unsigned_decimal_def Let_def tw radix_literal_def radix_num_digits
        exponent_part_def scale10_def decimal_value_def)
  show ?thesis
    using assms(1) t nx nd sg ud by (simp add: StringToNumber_def)
qed

lemma StringToNumber_digits:
  assumes "s \<noteq> []" and "\<forall>c\<in>set s. is_digit c" and "decimal_value s \<le> 2 ^ 53"
  shows "StringToNumber s = Fin (of_nat (decimal_value s))"
  using StringToNumber_digits_rounded [OF assms(1,2)] round_binary64_nat [OF assms(3)]
  by simp

lemma StringToNumber_NaN:
  assumes "trim s = c # cs" and "\<not> is_digit c" and "c \<notin> set ''.+-I''"
  shows "StringToNumber s = NaN"
proof -
  have z: "c \<noteq> CHR ''0''" using assms(2) by (auto simp: is_digit_def)
  have "unsigned_decimal (c # cs) = NaN"
    using assms(2,3) by (auto simp: unsigned_decimal_def)
  then show ?thesis
    using assms z by (auto simp: StringToNumber_def)
qed

section \<open>Properties of the normalization\<close>

lemma normalizeRow_chain:
  "\<not> is_nullish r \<Longrightarrow>
     normalizeRow dtoa r = Inr (JObj
       [(''name'', first_truthy r [''name'', ''Name'', ''full_name''] (JStr [])),
        (''email'', first_truthy r [''email'', ''Email''] (JStr [])),
        (''attending'', first_truthy r [''attending'', ''Attending''] (JStr [])),
        (''guests'', JNum (ToNumber dtoa (first_truthy r [''guests'', ''Guests''] (JNum (Fin 0))))),
        (''message'', first_truthy r [''message'', ''Message''] (JStr [])),
        (''timestamp'',
           first_truthy r [''timestamp'', ''Timestamp'', ''time'', ''Time''] (JStr []))])"
  by (simp add: normalizeRow_def js_or_def)

text \<open>
  C1, as stated, fails: a row whose \<^verbatim>\<open>guests\<close> is the string \<^verbatim>\<open>two\<close> gets
  \<^verbatim>\<open>guests: NaN\<close>, not 0.
\<close>

theorem normalize_guests_counterexample:
  "normalizeRow (\<lambda>q. []) (JObj [(''name'', JStr ''Ana''), (''guests'', JStr ''two'')])
   = Inr (JObj [(''name'', JStr ''Ana''), (''email'', JStr []), (''attending'', JStr []),
                (''guests'', JNum NaN), (''message'', JStr []), (''timestamp'', JStr [])])"
  by (simp add: normalizeRow_def is_nullish_def js_or_def ToNumber_def StringToNumber_def
      trim_def is_ws_def unsigned_decimal_def is_digit_def)

text \<open>
  C1, amended. For every row that is not \<^verbatim>\<open>null\<close> or \<^verbatim>\<open>undefined\<close>, the normalized
  \<^verbatim>\<open>guests\<close> is \<^verbatim>\<open>Number(v)\<close>, where \<open>v\<close> is the first truthy value among \<^verbatim>\<open>r.guests\<close>
  and \<^verbatim>\<open>r.Guests\<close>, or 0 when neither is truthy. So it is 0 when the row has no truthy
  guests value; it is the number itself when \<^verbatim>\<open>r.guests\<close> is a truthy number; and
  when \<^verbatim>\<open>r.guests\<close> is a non-empty string it is \<^verbatim>\<open>StringToNumber\<close> of it. For a
  string of decimal digits that is its base-10 value rounded to binary64, hence the
  base-10 value itself when this is at most \<open>2^53\<close>; and it is \<^verbatim>\<open>NaN\<close>, not 0, for a
  string that, once trimmed, starts with a character no numeric literal starts with.
\<close>

theorem normalize_guests:
  assumes "\<not> is_nullish r"
  shows "\<exists>n e a g m t.
     normalizeRow dtoa r = Inr (JObj
       [(''name'', n), (''email'', e), (''attending'', a), (''guests'', JNum g),
        (''message'', m), (''timestamp'', t)])
     \<and> g = ToNumber dtoa (first_truthy r [''guests'', ''Guests''] (JNum (Fin 0)))
     \<and> (\<not> ToBoolean (rd r ''guests'') \<and> \<not> ToBoolean (rd r ''Guests'') \<longrightarrow> g = Fin 0)
     \<and> (\<forall>x. rd r ''guests'' = JNum x \<and> ToBoolean (JNum x) \<longrightarrow> g = x)
     \<and> (\<forall>s. rd r ''guests'' = JStr s \<and> s \<noteq> [] \<longrightarrow> g = StringToNumber s)
     \<and> (\<forall>s. rd r ''guests'' = JStr s \<and> s \<noteq> [] \<and> (\<forall>c\<in>set s. is_digit c) \<longrightarrow>
            g = round_binary64 (of_nat (decimal_value s)))
     \<and> (\<forall>s. rd r ''guests'' = JStr s \<and> s \<noteq> [] \<and> (\<forall>c\<in>set s. is_digit c) \<and>
            decimal_value s \<le> 2 ^ 53 \<longrightarrow> g = Fin (of_nat (decimal_value s)))
     \<and> (\<forall>s c cs. rd r ''guests'' = JStr s \<and> trim s = c # cs \<and> \<not> is_digit c \<and>
            c \<notin> set ''.+-I'' \<longrightarrow> g = NaN)"
proof -
  let ?g = "ToNumber dtoa (first_truthy r [''guests'', ''Guests''] (JNum (Fin 0)))"
  have absent: "\<not> ToBoolean (rd r ''guests'') \<and> \<not> ToBoolean (rd r ''Guests'') \<longrightarrow> ?g = Fin 0"
    by (simp add: ToNumber_def)
  have num: "\<forall>x. rd r ''guests'' = JNum x \<and> ToBoolean (JNum x) \<longrightarrow> ?g = x"
    by (simp add: ToNumber_def)
  have str: "\<forall>s. rd r ''guests'' = JStr s \<and> s \<noteq> [] \<longrightarrow> ?g = StringToNumber s"
    by (simp add: ToNumber_def)
  have rnd: "\<forall>s. rd r ''guests'' = JStr s \<and> s \<noteq> [] \<and> (\<forall>c\<in>set s. is_digit c) \<longrightarrow>
            ?g = round_binary64 (of_nat (decimal_value s))"
    using str StringToNumber_digits_rounded by auto
  have dig: "\<forall>s. rd r ''guests'' = JStr s \<and> s \<noteq> [] \<and> (\<forall>c\<in>set s. is_digit c) \<and>
            decimal_value s \<le> 2 ^ 53 \<longrightarrow> ?g = Fin (of_nat (decimal_value s))"
    using str StringToNumber_digits by auto
  have nan: "\<forall>s c cs. rd r ''guests'' = JStr s \<and> trim s = c # cs \<and> \<not> is_digit c \<and>
            c \<notin> set ''.+-I'' \<longrightarrow> ?g = NaN"
  proof (intro allI impI)
    fix s c cs
    assume h: "rd r ''guests'' = JStr s \<and> trim s = c # cs \<and> \<not> is_digit c \<and>
            c \<notin> set ''.+-I''"
    then have "s \<noteq> []" by (auto simp: trim_def)
    with h str have "?g = StringToNumber s" by blast
    with h show "?g = NaN" using StringToNumber_NaN by metis
  qed
  from normalizeRow_chain [OF assms, of dtoa] absent num str rnd dig nan
  show ?thesis by blast
qed

theorem normalize_guests_witness:
  "normalizeRow (\<lambda>q. []) (JObj [(''Name'', JStr ''Bo''), (''guests'', JStr ''12'')])
   = Inr (JObj [(''name'', JStr ''Bo''), (''email'', JStr []), (''attending'', JStr []),
                (''guests'', JNum (Fin 12)), (''message'', JStr []), (''timestamp'', JStr [])])"
proof -
  let ?r = "JObj [(''Name'', JStr ''Bo''), (''guests'', JStr ''12'')]"
  have nn: "\<not> is_nullish ?r" by (simp add: is_nullish_def)
  have dv: "decimal_value ''12'' = 12" by (simp add: decimal_value_def)
  have dg: "\<forall>c\<in>set ''12''. is_digit c" by (simp add: is_digit_def)
  from normalize_guests [OF nn, of "\<lambda>q. []"] obtain n e a g m t where
    eq: "normalizeRow (\<lambda>q. []) ?r = Inr (JObj
       [(''name'', n), (''email'', e), (''attending'', a), (''guests'', JNum g),
        (''message'', m), (''timestamp'', t)])"
    and g: "\<forall>s. rd ?r ''guests'' = JStr s \<and> s \<noteq> [] \<and> (\<forall>c\<in>set s. is_digit c) \<and>
            decimal_value s \<le> 2 ^ 53 \<longrightarrow> g = Fin (of_nat (decimal_value s))"
    by blast
  from g dg dv have "g = Fin 12" by simp
  moreover from eq have "n = JStr ''Bo''" "e = JStr []" "a = JStr []" "m = JStr []" "t = JStr []"
    by (auto simp: normalizeRow_def is_nullish_def js_or_def)
  ultimately show ?thesis using eq by simp
qed

lemma first_truthy_cong:
  "\<forall>k\<in>set ks. rd r k = rd r' k \<Longrightarrow> first_truthy r ks d = first_truthy r' ks d"
  by (induction ks) auto

text \<open>
  C6, as stated, fails: the lookup is not case-insensitive. A row with the keys
  \<^verbatim>\<open>NAME\<close> and \<^verbatim>\<open>EMAIL\<close> normalizes to empty \<^verbatim>\<open>name\<close> and \<^verbatim>\<open>email\<close>.
\<close>

theorem normalize_chain_counterexample:
  "normalizeRow (\<lambda>q. []) (JObj [(''NAME'', JStr ''A''), (''EMAIL'', JStr ''b@x.com'')])
   = Inr (JObj [(''name'', JStr []), (''email'', JStr []), (''attending'', JStr []),
                (''guests'', JNum (Fin 0)), (''message'', JStr []), (''timestamp'', JStr [])])"
  by (simp add: normalizeRow_def is_nullish_def js_or_def ToNumber_def)

text \<open>
  C6, amended. For every row that is not \<^verbatim>\<open>null\<close> or \<^verbatim>\<open>undefined\<close>, each canonical
  field is the first truthy value found under the keys of a fixed chain, matched
  exactly (lower case and capitalized spellings only): \<^verbatim>\<open>name\<close> from
  \<^verbatim>\<open>name\<close>, \<^verbatim>\<open>Name\<close>, \<^verbatim>\<open>full_name\<close>; \<^verbatim>\<open>email\<close> from \<^verbatim>\<open>email\<close>, \<^verbatim>\<open>Email\<close>;
  \<^verbatim>\<open>attending\<close> from \<^verbatim>\<open>attending\<close>, \<^verbatim>\<open>Attending\<close>; \<^verbatim>\<open>guests\<close> from \<^verbatim>\<open>guests\<close>,
  \<^verbatim>\<open>Guests\<close>; \<^verbatim>\<open>message\<close> from \<^verbatim>\<open>message\<close>, \<^verbatim>\<open>Message\<close>; \<^verbatim>\<open>timestamp\<close> from
  \<^verbatim>\<open>timestamp\<close>, \<^verbatim>\<open>Timestamp\<close>, \<^verbatim>\<open>time\<close>, \<^verbatim>\<open>Time\<close>; the default is the empty
  string, and 0 for \<^verbatim>\<open>guests\<close>, which is passed through \<^verbatim>\<open>Number\<close>. Two rows that
  agree under these fifteen keys normalize alike, so no other key is consulted. In
  particular the row \<^verbatim>\<open>{Name:"A", Email:"b@x.com"}\<close> normalizes to
  \<^verbatim>\<open>{name:"A", email:"b@x.com", attending:"", guests:0, message:"", timestamp:""}\<close>.
\<close>

theorem normalize_chain:
  "(\<not> is_nullish r \<longrightarrow>
     normalizeRow dtoa r = Inr (JObj
       [(''name'', first_truthy r [''name'', ''Name'', ''full_name''] (JStr [])),
        (''email'', first_truthy r [''email'', ''Email''] (JStr [])),
        (''attending'', first_truthy r [''attending'', ''Attending''] (JStr [])),
        (''guests'', JNum (ToNumber dtoa (first_truthy r [''guests'', ''Guests''] (JNum (Fin 0))))),
        (''message'', first_truthy r [''message'', ''Message''] (JStr [])),
        (''timestamp'',
           first_truthy r [''timestamp'', ''Timestamp'', ''time'', ''Time''] (JStr []))]))
   \<and> (\<not> is_nullish r1 \<and> \<not> is_nullish r2 \<and>
       (\<forall>k\<in>set [''name'', ''Name'', ''full_name'', ''email'', ''Email'', ''attending'',
                   ''Attending'', ''guests'', ''Guests'', ''message'', ''Message'',
                   ''timestamp'', ''Timestamp'', ''time'', ''Time'']. rd r1 k = rd r2 k) \<longrightarrow>
       normalizeRow dtoa r1 = normalizeRow dtoa r2)
   \<and> normalizeRow dtoa (JObj [(''Name'', JStr ''A''), (''Email'', JStr ''b@x.com'')])
     = Inr (JObj [(''name'', JStr ''A''), (''email'', JStr ''b@x.com''), (''attending'', JStr []),
                  (''guests'', JNum (Fin 0)), (''message'', JStr []), (''timestamp'', JStr [])])"
proof (intro conjI impI)
  assume "\<not> is_nullish r"
  then show "normalizeRow dtoa r = Inr (JObj
       [(''name'', first_truthy r [''name'', ''Name'', ''full_name''] (JStr [])),
        (''email'', first_truthy r [''email'', ''Email''] (JStr [])),
        (''attending'', first_truthy r [''attending'', ''Attending''] (JStr [])),
        (''guests'', JNum (ToNumber dtoa (first_truthy r [''guests'', ''Guests''] (JNum (Fin 0))))),
        (''message'', first_truthy r [''message'', ''Message''] (JStr [])),
        (''timestamp'',
           first_truthy r [''timestamp'', ''Timestamp'', ''time'', ''Time''] (JStr []))])"
    by (rule normalizeRow_chain)
next
  assume h: "\<not> is_nullish r1 \<and> \<not> is_nullish r2 \<and>
       (\<forall>k\<in>set [''name'', ''Name'', ''full_name'', ''email'', ''Email'', ''attending'',
                   ''Attending'', ''guests'', ''Guests'', ''message'', ''Message'',
                   ''timestamp'', ''Timestamp'', ''time'', ''Time'']. rd r1 k = rd r2 k)"
  then have eq: "first_truthy r1 ks d = first_truthy r2 ks d"
    if "set ks \<subseteq> set [''name'', ''Name'', ''full_name'', ''email'', ''Email'', ''attending'',
                   ''Attending'', ''guests'', ''Guests'', ''message'', ''Message'',
                   ''timestamp'', ''Timestamp'', ''time'', ''Time'']" for ks d
    using that by (intro first_truthy_cong) blast
  from h have nn: "\<not> is_nullish r1" "\<not> is_nullish r2" by simp_all
  show "normalizeRow dtoa r1 = normalizeRow dtoa r2"
    by (simp add: normalizeRow_chain nn eq del: first_truthy.simps)
next
  show "normalizeRow dtoa (JObj [(''Name'', JStr ''A''), (''Email'', JStr ''b@x.com'')])
     = Inr (JObj [(''name'', JStr ''A''), (''email'', JStr ''b@x.com''), (''attending'', JStr []),
                  (''guests'', JNum (Fin 0)), (''message'', JStr []), (''timestamp'', JStr [])])"
    by (simp add: normalizeRow_def is_nullish_def js_or_def ToNumber_def)
qed

theorem normalize_chain_witness:
  "normalizeRow (\<lambda>q. [])
     (JObj [(''Name'', JStr ''Bo''), (''Timestamp'', JStr ''2025-01-01T00:00:00Z'')])
   = Inr (JObj [(''name'', JStr ''Bo''), (''email'', JStr []), (''attending'', JStr []),
                (''guests'', JNum (Fin 0)), (''message'', JStr []),
                (''timestamp'', JStr ''2025-01-01T00:00:00Z'')])
   \<and> normalizeRow (\<lambda>q. []) (JObj [(''Name'', JStr ''Bo''), (''NAME'', JStr ''Al'')])
     = normalizeRow (\<lambda>q. []) (JObj [(''Name'', JStr ''Bo'')])"
proof -
  let ?r = "JObj [(''Name'', JStr ''Bo''), (''Timestamp'', JStr ''2025-01-01T00:00:00Z'')]"
  let ?r1 = "JObj [(''Name'', JStr ''Bo''), (''NAME'', JStr ''Al'')]"
  let ?r2 = "JObj [(''Name'', JStr ''Bo'')]"
  have nn: "\<not> is_nullish ?r" "\<not> is_nullish ?r1" "\<not> is_nullish ?r2"
    by (simp_all add: is_nullish_def)
  have same: "\<forall>k\<in>set [''name'', ''Name'', ''full_name'', ''email'', ''Email'', ''attending'',
                   ''Attending'', ''guests'', ''Guests'', ''message'', ''Message'',
                   ''timestamp'', ''Timestamp'', ''time'', ''Time'']. rd ?r1 k = rd ?r2 k"
    by simp
  from normalize_chain [of ?r "\<lambda>q. []" ?r1 ?r2] nn same
  show ?thesis by (simp add: ToNumber_def)
qed

lemma keys6:
  "map fst kvs = [k1, k2, k3, k4, k5, k6] \<Longrightarrow>
     \<exists>a b c d e f. kvs = [(k1, a), (k2, b), (k3, c), (k4, d), (k5, e), (k6, f)]"
  by (auto simp: map_eq_Cons_conv)

text \<open>
  C7. Normalizing a canonical row gives the row back: the result has the six canonical
  keys in their order and holds, under each, the value the input holds; it is the
  input itself when the input lists its keys in that order.
\<close>

theorem normalize_canonical:
  assumes "canonical_row kvs"
  shows "\<exists>out. normalizeRow dtoa (JObj kvs) = Inr (JObj out)
           \<and> map fst out = canonical_keys
           \<and> map_of out = map_of kvs
           \<and> (map fst kvs = canonical_keys \<longrightarrow> out = kvs)"
proof -
  let ?r = "JObj kvs"
  from assms have keys: "set (map fst kvs) = set canonical_keys"
    by (simp add: canonical_row_def)
  have absent: "rd ?r k = JUndefined" if "k \<notin> set canonical_keys" for k
  proof -
    from that keys have "k \<notin> fst ` set kvs" by simp
    then have "map_of kvs k = None" by (simp add: map_of_eq_None_iff)
    then show ?thesis by simp
  qed
  have present: "map_of kvs k = Some (rd ?r k)" if "k \<in> set canonical_keys" for k
  proof -
    from that keys have "k \<in> fst ` set kvs" by simp
    then obtain v where "map_of kvs k = Some v"
      by (metis map_of_eq_None_iff not_Some_eq)
    then show ?thesis by simp
  qed
  have others: "rd ?r ''Name'' = JUndefined" "rd ?r ''full_name'' = JUndefined"
    "rd ?r ''Email'' = JUndefined" "rd ?r ''Attending'' = JUndefined"
    "rd ?r ''Guests'' = JUndefined" "rd ?r ''Message'' = JUndefined"
    "rd ?r ''Timestamp'' = JUndefined" "rd ?r ''time'' = JUndefined"
    "rd ?r ''Time'' = JUndefined"
    by (rule absent, simp add: canonical_keys_def)+
  have text_field: "js_or (rd ?r k) (JStr []) = rd ?r k" if "is_str (rd ?r k)" for k
    using that by (cases "rd ?r k") (simp_all add: is_str_def js_or_def del: rd.simps)
  from assms have strs: "is_str (rd ?r ''name'')" "is_str (rd ?r ''email'')"
    "is_str (rd ?r ''attending'')" "is_str (rd ?r ''message'')" "is_str (rd ?r ''timestamp'')"
    by (simp_all add: canonical_row_def)
  from assms obtain g where g: "rd ?r ''guests'' = JNum g" "g \<noteq> NaN"
    by (cases "rd ?r ''guests''") (auto simp: canonical_row_def is_num_def)
  have guests: "JNum (ToNumber dtoa (js_or (rd ?r ''guests'') (JNum (Fin 0)))) = rd ?r ''guests''"
    using g by (cases g) (auto simp: js_or_def ToNumber_def simp del: rd.simps)
  have fallthrough: "js_or (js_or a JUndefined) b = js_or a b" for a b
    by (simp add: js_or_def)
  let ?out = "[(''name'', rd ?r ''name''), (''email'', rd ?r ''email''),
               (''attending'', rd ?r ''attending''), (''guests'', rd ?r ''guests''),
               (''message'', rd ?r ''message''), (''timestamp'', rd ?r ''timestamp'')]"
  have eq: "normalizeRow dtoa ?r = Inr (JObj ?out)"
    using strs
    by (simp add: normalizeRow_def is_nullish_def others fallthrough text_field guests
        del: rd.simps)
  have fst_out: "map fst ?out = canonical_keys" by (simp add: canonical_keys_def)
  have same: "map_of ?out = map_of kvs"
  proof
    fix k
    show "map_of ?out k = map_of kvs k"
    proof (cases "k \<in> set canonical_keys")
      case True
      then have "map_of ?out k = Some (rd ?r k)"
        by (auto simp: canonical_keys_def simp del: rd.simps)
      with present [OF True] show ?thesis by (simp del: rd.simps)
    next
      case False
      then have "map_of kvs k = None" using keys by (simp add: map_of_eq_None_iff)
      moreover from False have "map_of ?out k = None"
        by (simp add: canonical_keys_def del: rd.simps)
      ultimately show ?thesis by simp
    qed
  qed
  have ordered: "?out = kvs" if "map fst kvs = canonical_keys"
  proof -
    from that have "map fst kvs = [''name'', ''email'', ''attending'', ''guests'',
                                   ''message'', ''timestamp'']"
      by (simp only: canonical_keys_def)
    then have "\<exists>a b c d e f.
      kvs = [(''name'', a), (''email'', b), (''attending'', c), (''guests'', d),
             (''message'', e), (''timestamp'', f)]"
      by (rule keys6)
    then obtain a b c d e f where
      "kvs = [(''name'', a), (''email'', b), (''attending'', c), (''guests'', d),
              (''message'', e), (''timestamp'', f)]"
      by blast
    then show ?thesis by simp
  qed
  from eq fst_out same ordered show ?thesis by blast
qed

theorem normalize_canonical_witness:
  "normalizeRow (\<lambda>q. [])
     (JObj [(''name'', JStr ''Ana''), (''email'', JStr ''a@x.com''), (''attending'', JStr ''Yes''),
            (''guests'', JNum (Fin 2)), (''message'', JStr []),
            (''timestamp'', JStr ''2025-01-01T00:00:00.000Z'')])
   = Inr (JObj [(''name'', JStr ''Ana''), (''email'', JStr ''a@x.com''), (''attending'', JStr ''Yes''),
            (''guests'', JNum (Fin 2)), (''message'', JStr []),
            (''timestamp'', JStr ''2025-01-01T00:00:00.000Z'')])"
proof -
  let ?kvs = "[(''name'', JStr ''Ana''), (''email'', JStr ''a@x.com''), (''attending'', JStr ''Yes''),
            (''guests'', JNum (Fin 2)), (''message'', JStr []),
            (''timestamp'', JStr ''2025-01-01T00:00:00.000Z'')]"
  have c: "canonical_row ?kvs"
    by (simp add: canonical_row_def canonical_keys_def is_str_def is_num_def)
  have o: "map fst ?kvs = canonical_keys" by (simp add: canonical_keys_def)
  from normalize_canonical [OF c, of "\<lambda>q. []"] o show ?thesis by auto
qed


section \<open>Properties of the refresh\<close>

lemma first_truthy_cases:
  "first_truthy r ks d = d \<or>
     (ToBoolean (first_truthy r ks d) \<and> first_truthy r ks d \<in> rd r ` set ks)"
  by (induction ks) auto

lemma first_truthy_str:
  "\<forall>k\<in>set ks. is_str (rd r k) \<or> \<not> ToBoolean (rd r k) \<Longrightarrow> is_str d \<Longrightarrow>
     is_str (first_truthy r ks d)"
  by (induction ks) auto

lemma first_truthy_empty_iff:
  "ToBoolean (first_truthy r ks (JStr [])) \<longleftrightarrow> first_truthy r ks (JStr []) \<noteq> JStr []"
proof (cases "first_truthy r ks (JStr []) = JStr []")
  case True
  then show ?thesis by simp
next
  case False
  with first_truthy_cases [of r ks "JStr []"] show ?thesis by blast
qed

lemma normalizeRow_Inr:
  assumes "normalizeRow dtoa r = Inr x"
  shows "\<not> is_nullish r"
    and "x = JObj
       [(''name'', first_truthy r [''name'', ''Name'', ''full_name''] (JStr [])),
        (''email'', first_truthy r [''email'', ''Email''] (JStr [])),
        (''attending'', first_truthy r [''attending'', ''Attending''] (JStr [])),
        (''guests'', JNum (ToNumber dtoa (first_truthy r [''guests'', ''Guests''] (JNum (Fin 0))))),
        (''message'', first_truthy r [''message'', ''Message''] (JStr [])),
        (''timestamp'',
           first_truthy r [''timestamp'', ''Timestamp'', ''time'', ''Time''] (JStr []))]"
proof -
  from assms show nn: "\<not> is_nullish r" by (auto simp: normalizeRow_def split: if_splits)
  from assms normalizeRow_chain [OF nn, of dtoa] show "x = JObj
       [(''name'', first_truthy r [''name'', ''Name'', ''full_name''] (JStr [])),
        (''email'', first_truthy r [''email'', ''Email''] (JStr [])),
        (''attending'', first_truthy r [''attending'', ''Attending''] (JStr [])),
        (''guests'', JNum (ToNumber dtoa (first_truthy r [''guests'', ''Guests''] (JNum (Fin 0))))),
        (''message'', first_truthy r [''message'', ''Message''] (JStr [])),
        (''timestamp'',
           first_truthy r [''timestamp'', ''Timestamp'', ''time'', ''Time''] (JStr []))]"
    by simp
qed

lemma keep_row_normalized:
  assumes "normalizeRow dtoa r = Inr x"
  shows "keep_row x \<longleftrightarrow> \<not> (rd x ''name'' = JStr [] \<and> rd x ''email'' = JStr [])"
proof -
  let ?n = "first_truthy r [''name'', ''Name'', ''full_name''] (JStr [])"
  let ?e = "first_truthy r [''email'', ''Email''] (JStr [])"
  from normalizeRow_Inr(2) [OF assms] have n: "rd x ''name'' = ?n" and e: "rd x ''email'' = ?e"
    by (simp_all del: first_truthy.simps)
  have "ToBoolean ?n \<longleftrightarrow> ?n \<noteq> JStr []" "ToBoolean ?e \<longleftrightarrow> ?e \<noteq> JStr []"
    by (rule first_truthy_empty_iff)+
  then show ?thesis unfolding keep_row_def js_or_def n e by auto
qed

lemma map_rows_Inr:
  "map_rows f xs = Inr ys \<Longrightarrow> y \<in> set ys \<Longrightarrow> \<exists>x\<in>set xs. f x = Inr y"
  by (induction xs arbitrary: ys) (auto split: sum.splits)

lemma normalize_all_Inr:
  "normalize_all dtoa rows = Inr normed \<Longrightarrow> y \<in> set normed \<Longrightarrow>
     \<exists>r. normalizeRow dtoa r = Inr y"
  by (cases rows) (auto simp: normalize_all_def dest: map_rows_Inr)

lemma refreshRSVPs_cases:
  assumes "isAdmin"
  shows "rsvps (fst (refreshRSVPs dtoa url remote isAdmin st)) = [] \<or>
    (\<exists>rows sent normed. fetchRSVPsFromSheets url remote = (Inr rows, sent) \<and>
       normalize_all dtoa rows = Inr normed \<and>
       rsvps (fst (refreshRSVPs dtoa url remote isAdmin st)) = filter keep_row normed)"
  using assms by (auto simp: refreshRSVPs_def split: prod.splits sum.splits)

lemma refreshRSVPs_success:
  assumes "isAdmin" and "fetchRSVPsFromSheets url remote = (Inr rows, sent)"
    and "normalize_all dtoa rows = Inr normed"
  shows "refreshRSVPs dtoa url remote isAdmin st
         = (st\<lparr>rsvps := filter keep_row normed, loading := False\<rparr>, sent)"
  using assms by (simp add: refreshRSVPs_def)


text \<open>
  C9. After a refresh by an admin, every entry kept in the list has a non-empty
  \<^verbatim>\<open>name\<close> or a non-empty \<^verbatim>\<open>email\<close>; and when the list was fetched and normalized
  without an error, the entries kept are exactly the normalized rows, in order, but
  those whose \<^verbatim>\<open>name\<close> and \<^verbatim>\<open>email\<close> are both the empty string.
\<close>

theorem refresh_drops_empty_rows:
  assumes "isAdmin"
  shows "(\<forall>x\<in>set (rsvps (fst (refreshRSVPs dtoa url remote isAdmin st))).
            rd x ''name'' \<noteq> JStr [] \<or> rd x ''email'' \<noteq> JStr [])
       \<and> (\<forall>rows sent normed.
            fetchRSVPsFromSheets url remote = (Inr rows, sent) \<and>
            normalize_all dtoa rows = Inr normed \<longrightarrow>
              rsvps (fst (refreshRSVPs dtoa url remote isAdmin st))
              = filter (\<lambda>x. \<not> (rd x ''name'' = JStr [] \<and> rd x ''email'' = JStr [])) normed)"
proof (intro conjI allI impI ballI)
  fix rows sent normed
  assume h: "fetchRSVPsFromSheets url remote = (Inr rows, sent) \<and>
            normalize_all dtoa rows = Inr normed"
  have "filter keep_row normed
        = filter (\<lambda>x. \<not> (rd x ''name'' = JStr [] \<and> rd x ''email'' = JStr [])) normed"
  proof (rule filter_cong [OF refl])
    fix x assume "x \<in> set normed"
    with h obtain r where "normalizeRow dtoa r = Inr x"
      using normalize_all_Inr by blast
    then show "keep_row x = (\<not> (rd x ''name'' = JStr [] \<and> rd x ''email'' = JStr []))"
      by (rule keep_row_normalized)
  qed
  with h assms show "rsvps (fst (refreshRSVPs dtoa url remote isAdmin st))
              = filter (\<lambda>x. \<not> (rd x ''name'' = JStr [] \<and> rd x ''email'' = JStr [])) normed"
    by (simp add: refreshRSVPs_success)
next
  fix x assume x: "x \<in> set (rsvps (fst (refreshRSVPs dtoa url remote isAdmin st)))"
  with refreshRSVPs_cases [OF assms, of dtoa url remote st]
  obtain rows normed where n: "normalize_all dtoa rows = Inr normed"
    and "x \<in> set (filter keep_row normed)"
    by auto
  then have k: "keep_row x" and "x \<in> set normed" by simp_all
  with n obtain r where "normalizeRow dtoa r = Inr x"
    using normalize_all_Inr by blast
  with k show "rd x ''name'' \<noteq> JStr [] \<or> rd x ''email'' \<noteq> JStr []"
    by (simp add: keep_row_normalized)
qed

theorem refresh_drops_empty_rows_witness:
  "rsvps (fst (refreshRSVPs (\<lambda>q. []) (JStr ''https://script.example/exec'')
       (\<lambda>rq. Reply 200 (Some (JArr [JObj [(''Name'', JStr ''Bo'')],
                                       JObj [(''message'', JStr ''hi'')],
                                       JObj [(''Email'', JStr ''c@x.com'')]])))
       True \<lparr>rsvps = [], loading = False\<rparr>))
   = [JObj [(''name'', JStr ''Bo''), (''email'', JStr []), (''attending'', JStr []),
            (''guests'', JNum (Fin 0)), (''message'', JStr []), (''timestamp'', JStr [])],
      JObj [(''name'', JStr []), (''email'', JStr ''c@x.com''), (''attending'', JStr []),
            (''guests'', JNum (Fin 0)), (''message'', JStr []), (''timestamp'', JStr [])]]"
proof -
  let ?url = "JStr ''https://script.example/exec''"
  let ?rows = "JArr [JObj [(''Name'', JStr ''Bo'')], JObj [(''message'', JStr ''hi'')],
                     JObj [(''Email'', JStr ''c@x.com'')]]"
  let ?remote = "\<lambda>rq::request. Reply 200 (Some ?rows)"
  let ?normed =
    "[JObj [(''name'', JStr ''Bo''), (''email'', JStr []), (''attending'', JStr []),
            (''guests'', JNum (Fin 0)), (''message'', JStr []), (''timestamp'', JStr [])],
      JObj [(''name'', JStr []), (''email'', JStr []), (''attending'', JStr []),
            (''guests'', JNum (Fin 0)), (''message'', JStr ''hi''), (''timestamp'', JStr [])],
      JObj [(''name'', JStr []), (''email'', JStr ''c@x.com''), (''attending'', JStr []),
            (''guests'', JNum (Fin 0)), (''message'', JStr []), (''timestamp'', JStr [])]]"
  have f: "fetchRSVPsFromSheets ?url ?remote
           = (Inr ?rows, [\<lparr>req_method = GET,
                            req_url = ''https://script.example/exec?action=list'',
                            req_body = None\<rparr>])"
    by (simp add: fetchRSVPsFromSheets_def isSheetsConfigured_def status_ok_def rows_of_def)
  have n: "normalize_all (\<lambda>q. []) ?rows = Inr ?normed"
    by (simp add: normalize_all_def normalizeRow_def is_nullish_def js_or_def ToNumber_def)
  have "True" by simp
  from refresh_drops_empty_rows [OF this, of "\<lambda>q. []" ?url ?remote "\<lparr>rsvps = [], loading = False\<rparr>"]
    f n
  have "rsvps (fst (refreshRSVPs (\<lambda>q. []) ?url ?remote True \<lparr>rsvps = [], loading = False\<rparr>))
        = filter (\<lambda>x. \<not> (rd x ''name'' = JStr [] \<and> rd x ''email'' = JStr [])) ?normed"
    by blast
  then show ?thesis by simp
qed

text \<open>
  C10, as stated, fails: the text fields are not always strings. A row whose
  \<^verbatim>\<open>attending\<close> is the boolean \<^verbatim>\<open>true\<close> keeps it as a boolean.
\<close>

theorem refresh_record_shape_counterexample:
  "rsvps (fst (refreshRSVPs (\<lambda>q. []) (JStr ''https://script.example/exec'')
       (\<lambda>rq. Reply 200 (Some (JArr [JObj [(''name'', JStr ''Ana''), (''email'', JStr ''a@x.com''),
                                             (''attending'', JBool True)]])))
       True \<lparr>rsvps = [], loading = False\<rparr>))
   = [JObj [(''name'', JStr ''Ana''), (''email'', JStr ''a@x.com''), (''attending'', JBool True),
            (''guests'', JNum (Fin 0)), (''message'', JStr []), (''timestamp'', JStr [])]]"
proof -
  let ?url = "JStr ''https://script.example/exec''"
  let ?rows = "JArr [JObj [(''name'', JStr ''Ana''), (''email'', JStr ''a@x.com''),
                           (''attending'', JBool True)]]"
  let ?remote = "\<lambda>rq::request. Reply 200 (Some ?rows)"
  let ?normed = "[JObj [(''name'', JStr ''Ana''), (''email'', JStr ''a@x.com''),
            (''attending'', JBool True), (''guests'', JNum (Fin 0)), (''message'', JStr []),
            (''timestamp'', JStr [])]]"
  have f: "fetchRSVPsFromSheets ?url ?remote
           = (Inr ?rows, [\<lparr>req_method = GET,
                            req_url = ''https://script.example/exec?action=list'',
                            req_body = None\<rparr>])"
    by (simp add: fetchRSVPsFromSheets_def isSheetsConfigured_def status_ok_def rows_of_def)
  have n: "normalize_all (\<lambda>q. []) ?rows = Inr ?normed"
    by (simp add: normalize_all_def normalizeRow_def is_nullish_def js_or_def ToNumber_def)
  have k: "filter keep_row ?normed = ?normed" by (simp add: keep_row_def js_or_def)
  show ?thesis
    by (simp only: refreshRSVPs_success [OF TrueI f n] k fst_conv app_state.simps)
qed

lemma map_rows_list_all2:
  "map_rows f xs = Inr ys \<Longrightarrow> list_all2 (\<lambda>x y. f x = Inr y) xs ys"
  by (induction xs arbitrary: ys) (auto split: sum.splits)

lemma fetchRSVPs_Inr:
  assumes "fetchRSVPsFromSheets url remote = (Inr rows, sent)"
  shows "\<exists>rq status data. sent = [rq] \<and> req_method rq = GET \<and>
           remote rq = Reply status (Some data) \<and> status_ok status \<and> rows = rows_of data"
  using assms
  by (auto simp: fetchRSVPsFromSheets_def Let_def
      split: if_splits reply.splits option.splits)

lemma rows_of_array:
  assumes "rows_of data = JArr rs" and "rs \<noteq> []"
  shows "data = JArr rs \<or> rd data ''rows'' = JArr rs"
  using assms by (cases data) (auto simp: rows_of_def js_or_def is_nullish_def split: if_splits)

lemma refreshRSVPs_list:
  assumes "isAdmin" and "rsvps (fst (refreshRSVPs dtoa url remote isAdmin st)) \<noteq> []"
  shows "\<exists>rs sent normed. fetchRSVPsFromSheets url remote = (Inr (JArr rs), sent) \<and>
           map_rows (normalizeRow dtoa) rs = Inr normed \<and>
           rsvps (fst (refreshRSVPs dtoa url remote isAdmin st)) = filter keep_row normed"
proof -
  from refreshRSVPs_cases [OF assms(1), of dtoa url remote st] assms(2)
  obtain rows sent normed where f: "fetchRSVPsFromSheets url remote = (Inr rows, sent)"
    and n: "normalize_all dtoa rows = Inr normed"
    and r: "rsvps (fst (refreshRSVPs dtoa url remote isAdmin st)) = filter keep_row normed"
    by blast
  from n obtain rs where "rows = JArr rs" "map_rows (normalizeRow dtoa) rs = Inr normed"
    by (cases rows) (auto simp: normalize_all_def)
  with f r show ?thesis by blast
qed

text \<open>
  C10, amended. After a refresh by an admin, whatever the remote answered, every record
  of the list is the normalization of a row of the array the remote returned (the
  response itself, or its \<^verbatim>\<open>rows\<close>), and the list is the normalized rows that pass the
  filter. The record has exactly the six keys \<^verbatim>\<open>name\<close>, \<^verbatim>\<open>email\<close>, \<^verbatim>\<open>attending\<close>,
  \<^verbatim>\<open>guests\<close>, \<^verbatim>\<open>message\<close>, \<^verbatim>\<open>timestamp\<close>, in this order; \<^verbatim>\<open>guests\<close> is a number;
  each of the five other fields is the empty string or a truthy value copied unchanged
  from that row, under a key of its chain. The five are strings when every value of
  that row is a string or falsy.
\<close>

theorem refresh_record_shape:
  assumes "isAdmin"
    and "x \<in> set (rsvps (fst (refreshRSVPs dtoa url remote isAdmin st)))"
  shows "\<exists>rq status data rs normed r n e a g m t.
     fetchRSVPsFromSheets url remote = (Inr (JArr rs), [rq])
     \<and> remote rq = Reply status (Some data) \<and> status_ok status
     \<and> (data = JArr rs \<or> rd data ''rows'' = JArr rs)
     \<and> list_all2 (\<lambda>r y. normalizeRow dtoa r = Inr y) rs normed
     \<and> rsvps (fst (refreshRSVPs dtoa url remote isAdmin st)) = filter keep_row normed
     \<and> r \<in> set rs \<and> normalizeRow dtoa r = Inr x
     \<and> x = JObj [(''name'', n), (''email'', e), (''attending'', a), (''guests'', JNum g),
                 (''message'', m), (''timestamp'', t)]
     \<and> (n = JStr [] \<or> ToBoolean n \<and> n \<in> rd r ` set [''name'', ''Name'', ''full_name''])
     \<and> (e = JStr [] \<or> ToBoolean e \<and> e \<in> rd r ` set [''email'', ''Email''])
     \<and> (a = JStr [] \<or> ToBoolean a \<and> a \<in> rd r ` set [''attending'', ''Attending''])
     \<and> (m = JStr [] \<or> ToBoolean m \<and> m \<in> rd r ` set [''message'', ''Message''])
     \<and> (t = JStr [] \<or>
          ToBoolean t \<and> t \<in> rd r ` set [''timestamp'', ''Timestamp'', ''time'', ''Time''])
     \<and> ((\<forall>k. is_str (rd r k) \<or> \<not> ToBoolean (rd r k)) \<longrightarrow>
            is_str n \<and> is_str e \<and> is_str a \<and> is_str m \<and> is_str t)"
proof -
  from assms(2) have "rsvps (fst (refreshRSVPs dtoa url remote isAdmin st)) \<noteq> []" by auto
  from refreshRSVPs_list [OF assms(1) this]
  obtain rs sent normed where f: "fetchRSVPsFromSheets url remote = (Inr (JArr rs), sent)"
    and mr: "map_rows (normalizeRow dtoa) rs = Inr normed"
    and lst: "rsvps (fst (refreshRSVPs dtoa url remote isAdmin st)) = filter keep_row normed"
    by blast
  from assms(2) lst have xn: "x \<in> set normed" by simp
  from map_rows_Inr [OF mr xn] obtain r where rin: "r \<in> set rs"
    and r: "normalizeRow dtoa r = Inr x"
    by blast
  from fetchRSVPs_Inr [OF f] obtain rq status data where sent: "sent = [rq]"
    and rep: "remote rq = Reply status (Some data)" and ok: "status_ok status"
    and ro: "JArr rs = rows_of data"
    by blast
  from rin have "rs \<noteq> []" by auto
  with ro have shape_data: "data = JArr rs \<or> rd data ''rows'' = JArr rs"
    by (intro rows_of_array) simp_all
  have all2: "list_all2 (\<lambda>r y. normalizeRow dtoa r = Inr y) rs normed"
    by (rule map_rows_list_all2 [OF mr])
  let ?n = "first_truthy r [''name'', ''Name'', ''full_name''] (JStr [])"
  let ?e = "first_truthy r [''email'', ''Email''] (JStr [])"
  let ?a = "first_truthy r [''attending'', ''Attending''] (JStr [])"
  let ?g = "ToNumber dtoa (first_truthy r [''guests'', ''Guests''] (JNum (Fin 0)))"
  let ?m = "first_truthy r [''message'', ''Message''] (JStr [])"
  let ?t = "first_truthy r [''timestamp'', ''Timestamp'', ''time'', ''Time''] (JStr [])"
  have shape: "x = JObj [(''name'', ?n), (''email'', ?e), (''attending'', ?a), (''guests'', JNum ?g),
                 (''message'', ?m), (''timestamp'', ?t)]"
    by (rule normalizeRow_Inr(2) [OF r])
  have strs: "is_str (first_truthy r ks (JStr []))"
    if "\<forall>k. is_str (rd r k) \<or> \<not> ToBoolean (rd r k)" for ks
    using that by (intro first_truthy_str) (simp_all add: is_str_def)
  have fields:
    "?n = JStr [] \<or> ToBoolean ?n \<and> ?n \<in> rd r ` set [''name'', ''Name'', ''full_name'']"
    "?e = JStr [] \<or> ToBoolean ?e \<and> ?e \<in> rd r ` set [''email'', ''Email'']"
    "?a = JStr [] \<or> ToBoolean ?a \<and> ?a \<in> rd r ` set [''attending'', ''Attending'']"
    "?m = JStr [] \<or> ToBoolean ?m \<and> ?m \<in> rd r ` set [''message'', ''Message'']"
    "?t = JStr [] \<or>
          ToBoolean ?t \<and> ?t \<in> rd r ` set [''timestamp'', ''Timestamp'', ''time'', ''Time'']"
    by (rule first_truthy_cases)+
  have typed: "(\<forall>k. is_str (rd r k) \<or> \<not> ToBoolean (rd r k)) \<longrightarrow>
            is_str ?n \<and> is_str ?e \<and> is_str ?a \<and> is_str ?m \<and> is_str ?t"
    using strs by blast
  show ?thesis
  proof (intro exI conjI)
    show "fetchRSVPsFromSheets url remote = (Inr (JArr rs), [rq])" using f sent by simp
    show "remote rq = Reply status (Some data)" by (rule rep)
    show "status_ok status" by (rule ok)
    show "data = JArr rs \<or> rd data ''rows'' = JArr rs" by (rule shape_data)
    show "list_all2 (\<lambda>r y. normalizeRow dtoa r = Inr y) rs normed" by (rule all2)
    show "rsvps (fst (refreshRSVPs dtoa url remote isAdmin st)) = filter keep_row normed"
      by (rule lst)
    show "r \<in> set rs" by (rule rin)
    show "normalizeRow dtoa r = Inr x" by (rule r)
    show "x = JObj [(''name'', ?n), (''email'', ?e), (''attending'', ?a), (''guests'', JNum ?g),
                 (''message'', ?m), (''timestamp'', ?t)]"
      by (rule shape)
  qed (use fields typed in blast)+
qed

theorem refresh_record_shape_witness:
  "JObj [(''name'', JStr ''Bo''), (''email'', JStr []), (''attending'', JStr []),
         (''guests'', JNum (Fin 3)), (''message'', JStr []), (''timestamp'', JStr [])]
     \<in> set (rsvps (fst (refreshRSVPs (\<lambda>q. []) (JStr ''https://script.example/exec'')
          (\<lambda>rq. Reply 200 (Some (JObj [(''rows'',
                     JArr [JObj [(''Name'', JStr ''Bo''), (''Guests'', JNum (Fin 3))]])])))
          True \<lparr>rsvps = [], loading = False\<rparr>)))
   \<and> (\<exists>rq rs r.
         fetchRSVPsFromSheets (JStr ''https://script.example/exec'')
           (\<lambda>rq. Reply 200 (Some (JObj [(''rows'',
                     JArr [JObj [(''Name'', JStr ''Bo''), (''Guests'', JNum (Fin 3))]])])))
         = (Inr (JArr rs), [rq])
         \<and> r \<in> set rs
         \<and> normalizeRow (\<lambda>q. []) r
            = Inr (JObj [(''name'', JStr ''Bo''), (''email'', JStr []), (''attending'', JStr []),
                         (''guests'', JNum (Fin 3)), (''message'', JStr []),
                         (''timestamp'', JStr [])]))"
proof -
  let ?x = "JObj [(''name'', JStr ''Bo''), (''email'', JStr []), (''attending'', JStr []),
         (''guests'', JNum (Fin 3)), (''message'', JStr []), (''timestamp'', JStr [])]"
  let ?url = "JStr ''https://script.example/exec''"
  let ?remote = "\<lambda>rq::request. Reply 200 (Some (JObj [(''rows'',
                     JArr [JObj [(''Name'', JStr ''Bo''), (''Guests'', JNum (Fin 3))]])]))"
  let ?st = "\<lparr>rsvps = [], loading = False\<rparr>"
  let ?rows = "JArr [JObj [(''Name'', JStr ''Bo''), (''Guests'', JNum (Fin 3))]]"
  have f: "fetchRSVPsFromSheets ?url ?remote
           = (Inr ?rows, [\<lparr>req_method = GET,
                            req_url = ''https://script.example/exec?action=list'',
                            req_body = None\<rparr>])"
    by (simp add: fetchRSVPsFromSheets_def isSheetsConfigured_def status_ok_def rows_of_def
        js_or_def is_nullish_def)
  have n: "normalize_all (\<lambda>q. []) ?rows = Inr [?x]"
    by (simp add: normalize_all_def normalizeRow_def is_nullish_def js_or_def ToNumber_def)
  have k: "filter keep_row [?x] = [?x]" by (simp add: keep_row_def js_or_def)
  have "rsvps (fst (refreshRSVPs (\<lambda>q. []) ?url ?remote True ?st)) = [?x]"
    by (simp only: refreshRSVPs_success [OF TrueI f n] k fst_conv app_state.simps)
  then have mem: "?x \<in> set (rsvps (fst (refreshRSVPs (\<lambda>q. []) ?url ?remote True ?st)))"
    by simp
  from refresh_record_shape [OF TrueI mem] obtain rq rs r where
    "fetchRSVPsFromSheets ?url ?remote = (Inr (JArr rs), [rq])" "r \<in> set rs"
    "normalizeRow (\<lambda>q. []) r = Inr ?x"
    by (elim exE conjE)
  with mem show ?thesis by (intro conjI exI)
qed

section \<open>Properties of the endpoint calls\<close>

lemma fetchRSVPs_not_configured:
  "\<not> isSheetsConfigured url \<Longrightarrow>
     fetchRSVPsFromSheets url remote = (Inl (Error ''SHEETS_URL_NOT_CONFIGURED''), [])"
  by (simp add: fetchRSVPsFromSheets_def)

lemma addRSVP_post_not_configured:
  "\<not> isSheetsConfigured url \<Longrightarrow>
     addRSVPToSheets_post url remote entry = (Inl (Error ''SHEETS_URL_NOT_CONFIGURED''), [])"
  by (simp add: addRSVPToSheets_post_def)

lemma addRSVP_falsy_url:
  "\<not> ToBoolean url \<Longrightarrow>
     addRSVPToSheets dtoa url now remote entry = (Inl (Error ''SHEETS_URL_NOT_CONFIGURED''), [])"
  by (simp add: addRSVPToSheets_def)

lemma addRSVP_truthy_url_sends:
  "ToBoolean url \<Longrightarrow> \<not> is_nullish entry \<Longrightarrow>
     snd (addRSVPToSheets dtoa url now remote entry)
     = [\<lparr>req_method = GET,
         req_url = ToString dtoa url @ ''?'' @ serialize_params (add_params dtoa now entry),
         req_body = None\<rparr>]"
  by (simp add: addRSVPToSheets_def Let_def split: reply.splits option.splits)

lemma add_params_timestamp:
  "map_of (add_params dtoa now entry) ''timestamp'' = Some now"
  by (simp add: add_params_def)

lemma addRSVP_post_body:
  "isSheetsConfigured url \<Longrightarrow>
     map req_body (snd (addRSVPToSheets_post url remote entry))
     = [Some (JObj [(''action'', JStr ''add''), (''entry'', entry)])]"
  by (simp add: addRSVPToSheets_post_def Let_def split: reply.splits option.splits)

text \<open>
  C2 fails for the GET revision of \<^verbatim>\<open>addRSVPToSheets\<close>, whose guard is
  \<^verbatim>\<open>!SHEETS_WEB_APP_URL\<close> and not \<^verbatim>\<open>!isSheetsConfigured()\<close>: with the endpoint set to
  an address that lacks its scheme, \<^verbatim>\<open>isSheetsConfigured\<close> is false and the listing
  fails with \<^verbatim>\<open>SHEETS_URL_NOT_CONFIGURED\<close> without a request, but the submission
  sends its request and returns the acknowledgement.
\<close>

theorem addRSVP_unconfigured_sends:
  "isSheetsConfigured (JStr ''script.google.com/macros/s/abc/exec'') = False
   \<and> fetchRSVPsFromSheets (JStr ''script.google.com/macros/s/abc/exec'')
        (\<lambda>rq. Reply 200 (Some (JObj [(''ok'', JBool True)])))
      = (Inl (Error ''SHEETS_URL_NOT_CONFIGURED''), [])
   \<and> addRSVPToSheets (\<lambda>q. []) (JStr ''script.google.com/macros/s/abc/exec'')
        ''2025-06-01T12:00:00.000Z''
        (\<lambda>rq. Reply 200 (Some (JObj [(''ok'', JBool True)])))
        (JObj [(''name'', JStr ''Ana''), (''email'', JStr ''a@x.com''),
               (''attending'', JStr ''Yes''), (''guests'', JNum (Fin 2)),
               (''message'', JStr [])])
      = (Inr (JObj [(''ok'', JBool True)]),
         [\<lparr>req_method = GET,
           req_url = ''script.google.com/macros/s/abc/exec?action=add&name=Ana&email=a%40x.com&attending=Yes&guests=2&message=&timestamp=2025-06-01T12%3A00%3A00.000Z'',
           req_body = None\<rparr>])"
  by (simp add: isSheetsConfigured_def fetchRSVPsFromSheets_def
      addRSVPToSheets_def is_nullish_def add_params_def js_or_def serialize_params_def
      urlencode_def urlencode_char_def utf8_bytes_def percent_byte_def status_ok_def
      NumberToString_def Let_def)

text \<open>
  C3, as stated, fails for the GET revision of \<^verbatim>\<open>addRSVPToSheets\<close>: its \<^verbatim>\<open>timestamp\<close>
  parameter is \<^verbatim>\<open>new Date().toISOString()\<close> of the call, whatever the entry holds. The
  form handler stamps the entry and calls it at once; when the clock ticks between the
  two readings, the request carries the later time and not the supplied one.
\<close>

theorem addRSVP_timestamp_counterexample:
  "snd (addRSVPToSheets (\<lambda>q. []) (JStr ''https://script.example/exec'')
        ''2025-06-01T12:00:00.001Z''
        (\<lambda>rq. Reply 200 (Some (JObj [(''ok'', JBool True)])))
        (JObj [(''name'', JStr ''Ana''), (''email'', JStr ''a@x.com''),
               (''attending'', JStr ''Yes''), (''guests'', JNum (Fin 2)),
               (''message'', JStr []), (''timestamp'', JStr ''2025-06-01T12:00:00.000Z'')]))
   = [\<lparr>req_method = GET,
        req_url = ''https://script.example/exec?action=add&name=Ana&email=a%40x.com&attending=Yes&guests=2&message=&timestamp=2025-06-01T12%3A00%3A00.001Z'',
        req_body = None\<rparr>]"
  by (simp add: addRSVPToSheets_def is_nullish_def add_params_def js_or_def serialize_params_def
      urlencode_def urlencode_char_def utf8_bytes_def percent_byte_def status_ok_def
      NumberToString_def Let_def)

lemma add_params_ignores_timestamp:
  assumes "\<forall>k. k \<noteq> ''timestamp'' \<longrightarrow> rd entry k = rd entry2 k"
  shows "add_params dtoa now entry = add_params dtoa now entry2"
proof -
  from assms have "rd entry ''name'' = rd entry2 ''name''"
    "rd entry ''email'' = rd entry2 ''email''"
    "rd entry ''attending'' = rd entry2 ''attending''"
    "rd entry ''guests'' = rd entry2 ''guests''"
    "rd entry ''message'' = rd entry2 ''message''"
    by simp_all
  then show ?thesis by (simp add: add_params_def)
qed

lemma serialize_add_params:
  "serialize_params (add_params dtoa now entry)
   = join ''&'' (map (\<lambda>(k, v). urlencode k @ ''='' @ urlencode v)
                   (butlast (add_params dtoa now entry)))
     @ ''&timestamp='' @ urlencode now"
proof -
  have "urlencode ''timestamp'' = ''timestamp''"
    by (simp add: urlencode_def urlencode_char_def)
  then show ?thesis by (simp add: add_params_def serialize_params_def)
qed

text \<open>
  C3, amended. The GET revision of \<^verbatim>\<open>addRSVPToSheets\<close> sends one request whose
  \<^verbatim>\<open>timestamp\<close> parameter, the last one, is always the ISO time of the call: the
  entry's own timestamp is not read, and two entries that differ in nothing but
  \<^verbatim>\<open>timestamp\<close> are sent as the same request. The POST revision adds no timestamp and
  sends the entry as it is, so that a timestamp the entry supplies is carried unchanged.
\<close>

theorem addRSVP_timestamp:
  "(ToBoolean url \<and> \<not> is_nullish entry \<longrightarrow>
      snd (addRSVPToSheets dtoa url now remote entry)
      = [\<lparr>req_method = GET,
           req_url = ToString dtoa url @ ''?'' @ serialize_params (add_params dtoa now entry),
           req_body = None\<rparr>])
   \<and> map_of (add_params dtoa now entry) ''timestamp'' = Some now
   \<and> serialize_params (add_params dtoa now entry)
     = join ''&'' (map (\<lambda>(k, v). urlencode k @ ''='' @ urlencode v)
                     (butlast (add_params dtoa now entry)))
       @ ''&timestamp='' @ urlencode now
   \<and> ((\<forall>k. k \<noteq> ''timestamp'' \<longrightarrow> rd entry k = rd entry2 k) \<longrightarrow>
        add_params dtoa now entry = add_params dtoa now entry2)
   \<and> (isSheetsConfigured url \<longrightarrow>
        snd (addRSVPToSheets_post url remote entry)
        = [\<lparr>req_method = POST,
             req_url = (case url of JStr s \<Rightarrow> s | _ \<Rightarrow> []),
             req_body = Some (JObj [(''action'', JStr ''add''), (''entry'', entry)])\<rparr>])"
proof (intro conjI impI)
  assume "ToBoolean url \<and> \<not> is_nullish entry"
  then show "snd (addRSVPToSheets dtoa url now remote entry)
      = [\<lparr>req_method = GET,
           req_url = ToString dtoa url @ ''?'' @ serialize_params (add_params dtoa now entry),
           req_body = None\<rparr>]"
    by (simp add: addRSVP_truthy_url_sends)
next
  show "map_of (add_params dtoa now entry) ''timestamp'' = Some now"
    by (rule add_params_timestamp)
next
  show "serialize_params (add_params dtoa now entry)
     = join ''&'' (map (\<lambda>(k, v). urlencode k @ ''='' @ urlencode v)
                     (butlast (add_params dtoa now entry)))
       @ ''&timestamp='' @ urlencode now"
    by (rule serialize_add_params)
next
  assume "\<forall>k. k \<noteq> ''timestamp'' \<longrightarrow> rd entry k = rd entry2 k"
  then show "add_params dtoa now entry = add_params dtoa now entry2"
    by (rule add_params_ignores_timestamp)
next
  assume "isSheetsConfigured url"
  then show "snd (addRSVPToSheets_post url remote entry)
        = [\<lparr>req_method = POST,
             req_url = (case url of JStr s \<Rightarrow> s | _ \<Rightarrow> []),
             req_body = Some (JObj [(''action'', JStr ''add''), (''entry'', entry)])\<rparr>]"
    by (simp add: addRSVPToSheets_post_def Let_def split: reply.splits option.splits)
qed

theorem addRSVP_timestamp_witness:
  "snd (addRSVPToSheets (\<lambda>q. []) (JStr ''https://script.example/exec'')
        ''2025-06-01T12:00:00.001Z''
        (\<lambda>rq. Reply 200 (Some (JObj [(''ok'', JBool True)])))
        (JObj [(''name'', JStr ''Ana''), (''timestamp'', JStr ''2025-06-01T12:00:00.000Z'')]))
   = [\<lparr>req_method = GET,
        req_url = ''https://script.example/exec?'' @
          serialize_params (add_params (\<lambda>q. []) ''2025-06-01T12:00:00.001Z''
            (JObj [(''name'', JStr ''Ana'')])),
        req_body = None\<rparr>]
   \<and> snd (addRSVPToSheets_post (JStr ''https://script.example/exec'')
        (\<lambda>rq. Reply 200 (Some (JObj [(''ok'', JBool True)])))
        (JObj [(''name'', JStr ''Ana''), (''timestamp'', JStr ''2025-06-01T12:00:00.000Z'')]))
     = [\<lparr>req_method = POST, req_url = ''https://script.example/exec'',
          req_body = Some (JObj [(''action'', JStr ''add''),
            (''entry'', JObj [(''name'', JStr ''Ana''),
                              (''timestamp'', JStr ''2025-06-01T12:00:00.000Z'')])])\<rparr>]"
proof -
  let ?url = "JStr ''https://script.example/exec''"
  let ?e1 = "JObj [(''name'', JStr ''Ana''), (''timestamp'', JStr ''2025-06-01T12:00:00.000Z'')]"
  let ?e2 = "JObj [(''name'', JStr ''Ana'')]"
  have u: "ToBoolean ?url \<and> \<not> is_nullish ?e1" by (simp add: is_nullish_def)
  have c: "isSheetsConfigured ?url" by (simp add: isSheetsConfigured_def)
  have s: "\<forall>k. k \<noteq> ''timestamp'' \<longrightarrow> rd ?e1 k = rd ?e2 k" by simp
  from addRSVP_timestamp [of ?url ?e1 "\<lambda>q. []" "''2025-06-01T12:00:00.001Z''"
      "\<lambda>rq. Reply 200 (Some (JObj [(''ok'', JBool True)]))" ?e2] u c s
  show ?thesis by simp
qed

section \<open>Properties of the CSV export\<close>

lemma needsQuotes_iff: "needsQuotes s \<longleftrightarrow> contains_special s"
  by (induction s) (auto simp: contains_special_def)

lemma escape_quotes_eq: "escape_quotes s = double_quotes s"
  by (induction s) (simp_all add: double_quotes_def)

lemma double_quotes_id: "DQUOTE \<notin> set s \<Longrightarrow> double_quotes s = s"
  by (induction s) (auto simp: double_quotes_def)

lemma quote_cell_eq: "quote_cell s = csv_field s"
  by (auto simp: quote_cell_def csv_field_def needsQuotes_iff escape_quotes_eq Let_def
      double_quotes_id contains_special_def)

lemma processRow_cells:
  "processRow dtoa row = join '','' (map (\<lambda>v. csv_field (cell_text dtoa v)) (map snd row))"
  by (simp add: processRow_def quote_cell_eq)

lemma csv_read_plain_run:
  assumes "\<not> contains_special s" and "CR \<notin> set s" and "m = FieldStart \<or> m = Plain"
  shows "csv_read m fld row (s @ rest) = csv_read (if s = [] then m else Plain) (fld @ s) row rest"
  using assms
proof (induction s arbitrary: m fld)
  case Nil
  then show ?case by simp
next
  case (Cons c s)
  then have c: "c \<noteq> COMMA" "c \<noteq> DQUOTE" "c \<noteq> LF" "c \<noteq> CR"
    and s: "\<not> contains_special s" "CR \<notin> set s"
    by (auto simp: contains_special_def)
  from Cons.prems(3) c have "csv_read m fld row ((c # s) @ rest)
        = csv_read Plain (fld @ [c]) row (s @ rest)"
    by auto
  also have "\<dots> = csv_read (if s = [] then Plain else Plain) ((fld @ [c]) @ s) row rest"
    by (rule Cons.IH [OF s]) simp
  finally show ?case by simp
qed

lemma csv_read_field_end:
  assumes "at_delimiter rest"
    and "m = Plain \<or> m = QuoteSeen \<or> (m = FieldStart \<and> (rest \<noteq> [] \<or> row \<noteq> []))"
  shows "csv_read m fld row rest = field_end fld row rest"
proof (cases rest)
  case Nil
  with assms show ?thesis by (auto simp: field_end_def)
next
  case (Cons c cs)
  with assms(1) have "c = COMMA \<or> c = LF" by (simp add: at_delimiter_def)
  with Cons assms(2) show ?thesis by (auto simp: field_end_def)
qed

lemma csv_read_quoted_run:
  assumes "rest = [] \<or> hd rest \<noteq> DQUOTE"
  shows "csv_read Quoted fld row (double_quotes s @ DQUOTE # rest)
         = csv_read QuoteSeen (fld @ s) row rest"
proof (induction s arbitrary: fld)
  case Nil
  show ?case by (simp add: double_quotes_def)
next
  case (Cons c s)
  show ?case
  proof (cases "c = DQUOTE")
    case True
    have "csv_read Quoted fld row (double_quotes (c # s) @ DQUOTE # rest)
          = csv_read Quoted (fld @ [DQUOTE]) row (double_quotes s @ DQUOTE # rest)"
      using True by (simp add: double_quotes_def)
    also have "\<dots> = csv_read QuoteSeen ((fld @ [DQUOTE]) @ s) row rest" by (rule Cons.IH)
    finally show ?thesis using True by simp
  next
    case False
    have "csv_read Quoted fld row (double_quotes (c # s) @ DQUOTE # rest)
          = csv_read Quoted (fld @ [c]) row (double_quotes s @ DQUOTE # rest)"
      using False by (simp add: double_quotes_def)
    also have "\<dots> = csv_read QuoteSeen ((fld @ [c]) @ s) row rest" by (rule Cons.IH)
    finally show ?thesis by simp
  qed
qed

lemma csv_read_cell:
  assumes "cr_safe v" and "at_delimiter rest" and "rest \<noteq> [] \<or> row \<noteq> [] \<or> v \<noteq> []"
  shows "csv_read FieldStart [] row (csv_field v @ rest) = field_end v row rest"
proof (cases "contains_special v")
  case True
  from assms(2) have nq: "rest = [] \<or> hd rest \<noteq> DQUOTE" by (auto simp: at_delimiter_def)
  have "csv_read FieldStart [] row (csv_field v @ rest)
        = csv_read Quoted [] row (double_quotes v @ DQUOTE # rest)"
    using True by (simp add: csv_field_def)
  also have "\<dots> = csv_read QuoteSeen ([] @ v) row rest" by (rule csv_read_quoted_run [OF nq])
  also have "\<dots> = field_end v row rest" using assms(2) by (simp add: csv_read_field_end)
  finally show ?thesis .
next
  case False
  with assms(1) have cr: "CR \<notin> set v" by (auto simp: cr_safe_def)
  have "csv_read FieldStart [] row (csv_field v @ rest)
        = csv_read (if v = [] then FieldStart else Plain) v row rest"
    using False cr csv_read_plain_run [of v FieldStart "[]" row rest]
    by (simp add: csv_field_def)
  also have "\<dots> = field_end v row rest"
    by (rule csv_read_field_end [OF assms(2)]) (use assms(3) in auto)
  finally show ?thesis .
qed

lemma csv_read_row:
  assumes "vs \<noteq> []" and "\<forall>v\<in>set vs. cr_safe v" and "rest = [] \<or> hd rest = LF"
    and "rest \<noteq> [] \<or> row \<noteq> [] \<or> vs \<noteq> [[]]"
  shows "csv_read FieldStart [] row (join '','' (map csv_field vs) @ rest)
         = (case rest of [] \<Rightarrow> [row @ vs] | c # cs \<Rightarrow> (row @ vs) # csv_read FieldStart [] [] cs)"
  using assms
proof (induction vs arbitrary: row rule: list_nonempty_induct)
  case (single v)
  then have "csv_read FieldStart [] row (csv_field v @ rest) = field_end v row rest"
    by (intro csv_read_cell) (auto simp: at_delimiter_def)
  with single.prems(2) show ?case
    by (cases rest) (auto simp: field_end_def)
next
  case (cons v vs)
  then obtain w ws where vs: "vs = w # ws" by (cases vs) auto
  let ?tail = "join '','' (map csv_field vs) @ rest"
  have "csv_read FieldStart [] row (join '','' (map csv_field (v # vs)) @ rest)
        = csv_read FieldStart [] row (csv_field v @ COMMA # ?tail)"
    by (simp add: vs)
  also have "\<dots> = field_end v row (COMMA # ?tail)"
    using cons.prems by (intro csv_read_cell) (auto simp: at_delimiter_def)
  also have "\<dots> = csv_read FieldStart [] (row @ [v]) ?tail"
    by (simp add: field_end_def)
  also have "\<dots> = (case rest of [] \<Rightarrow> [(row @ [v]) @ vs]
                     | c # cs \<Rightarrow> ((row @ [v]) @ vs) # csv_read FieldStart [] [] cs)"
    using cons.prems by (intro cons.IH) auto
  also have "\<dots> = (case rest of [] \<Rightarrow> [row @ v # vs]
                     | c # cs \<Rightarrow> (row @ v # vs) # csv_read FieldStart [] [] cs)"
    by (cases rest) simp_all
  finally show ?case .
qed

lemma csv_read_rows:
  assumes "ls \<noteq> []" and "\<forall>vs\<in>set ls. vs \<noteq> [] \<and> (\<forall>v\<in>set vs. cr_safe v)"
    and "last ls \<noteq> [[]]"
  shows "csv_read FieldStart [] [] (join [LF] (map (\<lambda>vs. join '','' (map csv_field vs)) ls)) = ls"
  using assms
proof (induction ls rule: list_nonempty_induct)
  case (single l)
  then have "csv_read FieldStart [] [] (join '','' (map csv_field l) @ [])
             = (case [] :: string of [] \<Rightarrow> [[] @ l] | c # cs \<Rightarrow> ([] @ l) # csv_read FieldStart [] [] cs)"
    by (intro csv_read_row) auto
  then show ?case by simp
next
  case (cons l ls)
  then obtain l2 ls2 where ls: "ls = l2 # ls2" by (cases ls) auto
  let ?tail = "join [LF] (map (\<lambda>vs. join '','' (map csv_field vs)) ls)"
  have "csv_read FieldStart [] [] (join '','' (map csv_field l) @ LF # ?tail)
        = (case LF # ?tail of [] \<Rightarrow> [[] @ l] | c # cs \<Rightarrow> ([] @ l) # csv_read FieldStart [] [] cs)"
    using cons.prems by (intro csv_read_row) auto
  also have "\<dots> = l # csv_read FieldStart [] [] ?tail" by simp
  also have "csv_read FieldStart [] [] ?tail = ls"
    using cons.prems cons.hyps by (intro cons.IH) auto
  finally show ?case by (simp add: ls)
qed

text \<open>The header line: it is not quoted, and a comma in a key splits it.\<close>

lemma csv_read_header:
  assumes "DQUOTE \<notin> set s" and "LF \<notin> set s" and "CR \<notin> set s"
    and "m = FieldStart \<or> m = Plain"
  shows "\<exists>h. csv_read m fld row (s @ LF # rest) = h # csv_read FieldStart [] [] rest"
  using assms
proof (induction s arbitrary: m fld row)
  case Nil
  then show ?case by auto
next
  case (Cons c s)
  then have c: "c \<noteq> DQUOTE" "c \<noteq> LF" "c \<noteq> CR"
    and s: "DQUOTE \<notin> set s" "LF \<notin> set s" "CR \<notin> set s"
    by auto
  show ?case
  proof (cases "c = COMMA")
    case True
    with Cons.prems(4) have "csv_read m fld row ((c # s) @ LF # rest)
        = csv_read FieldStart [] (row @ [fld]) (s @ LF # rest)"
      by auto
    with Cons.IH [OF s, of FieldStart "[]" "row @ [fld]"] show ?thesis by auto
  next
    case False
    with Cons.prems(4) c have "csv_read m fld row ((c # s) @ LF # rest)
        = csv_read Plain (fld @ [c]) row (s @ LF # rest)"
      by auto
    with Cons.IH [OF s, of Plain "fld @ [c]" row] show ?thesis by auto
  qed
qed

lemma set_join: "set (join sep xs) \<subseteq> set sep \<union> \<Union> (set ` set xs)"
  by (induction sep xs rule: join.induct) auto

lemma processRow_strings:
  "processRow dtoa (map (\<lambda>(k, s). (k, JStr s)) r) = join '','' (map csv_field (map snd r))"
  by (simp add: processRow_cells cell_text_def comp_def case_prod_beta)

lemma rowsToCSV_Cons:
  "rowsToCSV dtoa (x # xs)
   = join '','' (map fst x) @ LF # join [LF] (processRow dtoa x # map (processRow dtoa) xs)"
  by (simp add: rowsToCSV_def)

lemma rowsToCSV_strings:
  "rowsToCSV dtoa (string_rows (r # rs))
   = join '','' (map fst r) @ LF #
     join [LF] (map (\<lambda>vs. join '','' (map csv_field vs)) (map (map snd) (r # rs)))"
proof -
  let ?x = "map (\<lambda>(k, s). (k, JStr s)) r"
  have split: "string_rows (r # rs) = ?x # string_rows rs" by (simp add: string_rows_def)
  have keys: "map fst ?x = map fst r" by (simp add: comp_def case_prod_beta)
  have lines: "map (processRow dtoa) (string_rows rs)
               = map (\<lambda>vs. join '','' (map csv_field vs)) (map (map snd) rs)"
    by (simp add: string_rows_def processRow_strings comp_def)
  show ?thesis
    unfolding split rowsToCSV_Cons keys lines processRow_strings by simp
qed

lemma rowsToCSV_empty: "rowsToCSV dtoa (string_rows []) = []"
  by (simp add: rowsToCSV_def string_rows_def)

text \<open>
  C4, as stated, fails. The header is not escaped: two different tables, one with a
  line feed in its key, have the same CSV text, so that no reader returns both; and a
  key that starts with a double quote swallows the rows. A table of one column whose
  last value is empty ends in a line break, which a reader takes for the end of the
  last record, and the row is lost; so is a row without keys. A carriage return alone
  does not make a cell quoted, and a reader takes it for a line break.
\<close>

theorem rowsToCSV_roundtrip_counterexample:
  "rowsToCSV (\<lambda>q. []) (string_rows [[(''a'' @ [LF] @ ''b'', ''c'')]])
   = rowsToCSV (\<lambda>q. []) (string_rows [[(''a'', ''b'')], [(''a'', ''c'')]])
   \<and> drop 1 (csv_parse (rowsToCSV (\<lambda>q. []) (string_rows [[(''note'', [])]]))) = []
   \<and> drop 1 (csv_parse (rowsToCSV (\<lambda>q. [])
        (string_rows [[(''note'', ''x'' @ [CR])], [(''note'', ''y'')]])))
     = [[''x''], [''y'']]
   \<and> drop 1 (csv_parse (rowsToCSV (\<lambda>q. []) (string_rows [[]]))) = []
   \<and> drop 1 (csv_parse (rowsToCSV (\<lambda>q. []) (string_rows [[([DQUOTE] @ ''k'', ''v'')]]))) = []"
  by (simp add: string_rows_def rowsToCSV_def processRow_def quote_cell_def cell_text_def
      csv_parse_def)

text \<open>
  C4, amended. Take rows of strings, each with at least one key, such that no key of
  the first row contains a double quote or a line break, no value contains a carriage
  return unless it also contains a comma, a double quote or a line feed, and the last
  row is not a single empty value. Then reading \<^verbatim>\<open>rowsToCSV(rows)\<close> with the reference
  reader and dropping the header record gives the values of every row, in row and
  column order. When moreover no key of the first row contains a comma, the header
  record is the list of these keys, and when all rows list the same keys in the same
  order, pairing the header with each record gives back the rows.
\<close>

theorem rowsToCSV_roundtrip:
  assumes "\<forall>r\<in>set rows. r \<noteq> []"
    and "\<forall>r\<in>set (take 1 rows). \<forall>k\<in>set (map fst r). header_safe k"
    and "\<forall>r\<in>set rows. \<forall>v\<in>set (map snd r). cr_safe v"
    and "rows \<noteq> [] \<longrightarrow> map snd (last rows) \<noteq> [[]]"
  shows "drop 1 (csv_parse (rowsToCSV dtoa (string_rows rows))) = map (map snd) rows
       \<and> (rows \<noteq> [] \<and> (\<forall>k\<in>set (map fst (hd rows)). COMMA \<notin> set k) \<longrightarrow>
            csv_parse (rowsToCSV dtoa (string_rows rows))
            = map fst (hd rows) # map (map snd) rows)
       \<and> (rows \<noteq> [] \<and> (\<forall>k\<in>set (map fst (hd rows)). COMMA \<notin> set k) \<and>
          (\<forall>r\<in>set rows. map fst r = map fst (hd rows)) \<longrightarrow>
            map (zip (hd (csv_parse (rowsToCSV dtoa (string_rows rows)))))
                (drop 1 (csv_parse (rowsToCSV dtoa (string_rows rows))))
            = rows)"
proof (cases rows)
  case Nil
  then show ?thesis by (simp add: rowsToCSV_empty csv_parse_def)
next
  case (Cons r rs)
  let ?csv = "rowsToCSV dtoa (string_rows rows)"
  let ?vals = "map (map snd) rows"
  let ?body = "join [LF] (map (\<lambda>vs. join '','' (map csv_field vs)) ?vals)"
  let ?hdr = "join '','' (map fst r)"
  have csv: "?csv = ?hdr @ LF # ?body" unfolding Cons by (rule rowsToCSV_strings)
  from assms(2) Cons have keys: "\<forall>k\<in>set (map fst r). header_safe k" by simp
  have vals_ok: "\<forall>vs\<in>set ?vals. vs \<noteq> [] \<and> (\<forall>v\<in>set vs. cr_safe v)"
    using assms(1,3) by auto
  have vals_ne: "?vals \<noteq> []" using Cons by simp
  from Cons have ne: "rows \<noteq> []" by simp
  have vals_last: "last ?vals \<noteq> [[]]"
    unfolding last_map [OF ne] using assms(4) ne by simp
  have body: "csv_read FieldStart [] [] ?body = ?vals"
    by (rule csv_read_rows [OF vals_ne vals_ok vals_last])
  have "set ?hdr \<subseteq> set '','' \<union> \<Union> (set ` set (map fst r))" by (rule set_join)
  with keys have hdr: "DQUOTE \<notin> set ?hdr" "LF \<notin> set ?hdr" "CR \<notin> set ?hdr"
    by (auto simp: header_safe_def)
  from csv_read_header [OF hdr, of FieldStart "[]" "[]" ?body]
  obtain h where "csv_read FieldStart [] [] (?hdr @ LF # ?body)
                  = h # csv_read FieldStart [] [] ?body"
    by auto
  with csv body have parsed: "csv_parse ?csv = h # ?vals" by (simp add: csv_parse_def)
  then have first: "drop 1 (csv_parse ?csv) = ?vals" by simp
  have header: "h = map fst r" if "\<forall>k\<in>set (map fst r). COMMA \<notin> set k"
  proof -
    from that keys have plain: "\<forall>k\<in>set (map fst r). \<not> contains_special k \<and> CR \<notin> set k"
      by (auto simp: header_safe_def contains_special_def)
    then have same: "map csv_field (map fst r) = map fst r"
      by (intro map_idI) (auto simp: csv_field_def)
    let ?ls = "map fst r # ?vals"
    from assms(1) Cons have "r \<noteq> []" by simp
    with plain vals_ok have ok: "\<forall>vs\<in>set ?ls. vs \<noteq> [] \<and> (\<forall>v\<in>set vs. cr_safe v)"
      by (auto simp: cr_safe_def)
    have lst: "last ?ls \<noteq> [[]]" using vals_last vals_ne by simp
    have "csv_read FieldStart [] []
            (join [LF] (map (\<lambda>vs. join '','' (map csv_field vs)) ?ls)) = ?ls"
      by (rule csv_read_rows [OF _ ok lst]) simp
    moreover have "join [LF] (map (\<lambda>vs. join '','' (map csv_field vs)) ?ls) = ?hdr @ LF # ?body"
      using vals_ne by (cases ?vals) (simp_all add: same [unfolded map_map])
    ultimately have "csv_parse ?csv = ?ls" using csv by (simp add: csv_parse_def)
    with parsed show ?thesis by simp
  qed
  have pairs: "map (zip (map fst r)) ?vals = rows"
    if "\<forall>x\<in>set rows. map fst x = map fst r"
  proof -
    have "zip (map fst r) (map snd x) = x" if "x \<in> set rows" for x
    proof -
      from that \<open>\<forall>x\<in>set rows. map fst x = map fst r\<close>
      have "zip (map fst r) (map snd x) = zip (map fst x) (map snd x)" by simp
      then show ?thesis by (simp add: zip_map_fst_snd)
    qed
    then show ?thesis by (simp add: map_idI)
  qed
  from first header pairs parsed show ?thesis unfolding Cons by auto
qed

theorem rowsToCSV_roundtrip_witness:
  "csv_parse (rowsToCSV (\<lambda>q. []) (string_rows
     [[(''name'', ''Ana''),
       (''message'', ''Hi, '' @ [DQUOTE] @ ''all'' @ [DQUOTE, CR, LF] @ ''bye'')],
      [(''name'', ''Bo''), (''message'', [])]]))
   = [[''name'', ''message''],
      [''Ana'', ''Hi, '' @ [DQUOTE] @ ''all'' @ [DQUOTE, CR, LF] @ ''bye''],
      [''Bo'', []]]
   \<and> map (zip (hd (csv_parse (rowsToCSV (\<lambda>q. []) (string_rows
            [[(''name'', ''Ana''),
              (''message'', ''Hi, '' @ [DQUOTE] @ ''all'' @ [DQUOTE, CR, LF] @ ''bye'')],
             [(''name'', ''Bo''), (''message'', [])]])))))
         (drop 1 (csv_parse (rowsToCSV (\<lambda>q. []) (string_rows
            [[(''name'', ''Ana''),
              (''message'', ''Hi, '' @ [DQUOTE] @ ''all'' @ [DQUOTE, CR, LF] @ ''bye'')],
             [(''name'', ''Bo''), (''message'', [])]]))))
     = [[(''name'', ''Ana''),
         (''message'', ''Hi, '' @ [DQUOTE] @ ''all'' @ [DQUOTE, CR, LF] @ ''bye'')],
        [(''name'', ''Bo''), (''message'', [])]]"
proof -
  let ?rows = "[[(''name'', ''Ana''),
                 (''message'', ''Hi, '' @ [DQUOTE] @ ''all'' @ [DQUOTE, CR, LF] @ ''bye'')],
                [(''name'', ''Bo''), (''message'', [])]]"
  have 1: "\<forall>r\<in>set ?rows. r \<noteq> []" by simp
  have 2: "\<forall>r\<in>set (take 1 ?rows). \<forall>k\<in>set (map fst r). header_safe k"
    by (simp add: header_safe_def)
  have 3: "\<forall>r\<in>set ?rows. \<forall>v\<in>set (map snd r). cr_safe v"
    by (simp add: cr_safe_def contains_special_def)
  have 4: "?rows \<noteq> [] \<longrightarrow> map snd (last ?rows) \<noteq> [[]]" by simp
  have 5: "?rows \<noteq> [] \<and> (\<forall>k\<in>set (map fst (hd ?rows)). COMMA \<notin> set k)" by simp
  have 6: "\<forall>r\<in>set ?rows. map fst r = map fst (hd ?rows)" by simp
  from rowsToCSV_roundtrip [OF 1 2 3 4, of "\<lambda>q. []"] 5 6
  have "csv_parse (rowsToCSV (\<lambda>q. []) (string_rows ?rows))
          = map fst (hd ?rows) # map (map snd) ?rows"
    and "map (zip (hd (csv_parse (rowsToCSV (\<lambda>q. []) (string_rows ?rows)))))
           (drop 1 (csv_parse (rowsToCSV (\<lambda>q. []) (string_rows ?rows)))) = ?rows"
    by blast+
  then show ?thesis by simp
qed

text \<open>
  C5. \<^verbatim>\<open>rowsToCSV\<close> emits the header, then one line per row, the lines joined by line
  feeds and the cells of a line by commas. The cell of a value is the field of its
  text, where the text of \<^verbatim>\<open>null\<close> and of \<^verbatim>\<open>undefined\<close> is empty and the text of any
  other value is its stringification; the field of a text that contains a comma, a
  double quote or a line feed is the text wrapped in double quotes with every double
  quote doubled, the field of any other text is the text itself, and a field has the
  wrapped form only in the first case.
\<close>

theorem rowsToCSV_quoting:
  "rowsToCSV dtoa rows
   = join [LF] (join '','' (map fst (case rows of [] \<Rightarrow> [] | r # rest \<Rightarrow> r))
       # map (\<lambda>row. join '','' (map (\<lambda>v. csv_field
                         (if v = JNull \<or> v = JUndefined then [] else ToString dtoa v))
                       (map snd row))) rows)
   \<and> (contains_special s \<longrightarrow> csv_field s = [DQUOTE] @ double_quotes s @ [DQUOTE])
   \<and> (\<not> contains_special s \<longrightarrow> csv_field s = s)
   \<and> (csv_field s = [DQUOTE] @ double_quotes s @ [DQUOTE]) = contains_special s
   \<and> csv_field [] = []"
proof -
  have "processRow dtoa = (\<lambda>row. join '','' (map (\<lambda>v. csv_field
                         (if v = JNull \<or> v = JUndefined then [] else ToString dtoa v))
                       (map snd row)))"
    by (rule ext) (simp add: processRow_cells cell_text_def)
  then have shape: "rowsToCSV dtoa rows
   = join [LF] (join '','' (map fst (case rows of [] \<Rightarrow> [] | r # rest \<Rightarrow> r))
       # map (\<lambda>row. join '','' (map (\<lambda>v. csv_field
                         (if v = JNull \<or> v = JUndefined then [] else ToString dtoa v))
                       (map snd row))) rows)"
    by (simp add: rowsToCSV_def Let_def del: join.simps)
  have "length s \<le> length (double_quotes s)" for s
    by (induction s) (simp_all add: double_quotes_def)
  then have "length s < length ([DQUOTE] @ double_quotes s @ [DQUOTE])"
    by (simp add: le_imp_less_Suc less_SucI)
  then have "s \<noteq> [DQUOTE] @ double_quotes s @ [DQUOTE]"
    by (metis less_irrefl)
  then have "(csv_field s = [DQUOTE] @ double_quotes s @ [DQUOTE]) = contains_special s"
    by (auto simp: csv_field_def)
  with shape show ?thesis by (simp add: csv_field_def contains_special_def)
qed

theorem rowsToCSV_quoting_witness:
  "rowsToCSV (\<lambda>q. [])
     [[(''name'', JStr ''Ana''), (''message'', JStr (''Hi, '' @ [DQUOTE] @ ''all'' @ [DQUOTE])),
       (''guests'', JNum (Fin 2)), (''timestamp'', JNull)]]
   = ''name,message,guests,timestamp'' @ [LF] @
     ''Ana,'' @ [DQUOTE] @ ''Hi, '' @ [DQUOTE, DQUOTE] @ ''all'' @ [DQUOTE, DQUOTE, DQUOTE] @ '',2,''"
proof -
  have digits: "NumberToString (\<lambda>q. []) (Fin 2) = ''2''"
    by (simp add: NumberToString_def)
  from rowsToCSV_quoting [of "\<lambda>q. []"
      "[[(''name'', JStr ''Ana''), (''message'', JStr (''Hi, '' @ [DQUOTE] @ ''all'' @ [DQUOTE])),
         (''guests'', JNum (Fin 2)), (''timestamp'', JNull)]]"
      "''Hi, '' @ [DQUOTE] @ ''all'' @ [DQUOTE]"]
  show ?thesis
    by (simp add: digits csv_field_def contains_special_def double_quotes_def)
qed

end
